theory Spec2Isabelle
  imports Main
begin

section \<open>Data model\<close>

text \<open>
  The script \<^verbatim>\<open>fetch_pr_comments.py\<close> reads JSON through the \<^verbatim>\<open>gh\<close> command line tool.
  The records below are the JSON objects it reads and writes, with the fields the script
  touches. A field that may be \<^verbatim>\<open>null\<close> (or read with \<^verbatim>\<open>.get\<close>) is an option;
  \<open>raw_diff_hunk\<close> is \<open>None\<close> when the key is absent, where the script takes the empty
  string. The field \<open>raw_login\<close> is \<^verbatim>\<open>c["user"]["login"]\<close>.
  Strings are sequences of bytes: the UTF-8 encoding of Python's strings.
\<close>

record raw_review_comment =
  raw_id :: int
  raw_login :: string
  raw_path :: string
  raw_line :: "int option"
  raw_original_line :: "int option"
  raw_body :: string
  raw_diff_hunk :: "string option"
  raw_position :: "int option"
  in_reply_to_id :: "int option"

record reply =
  reply_id :: int
  reply_author :: string
  reply_body :: string

record review_comment =
  rc_id :: int
  rc_author :: string
  rc_path :: string
  rc_line :: "int option"
  rc_body :: string
  rc_diff_hunk :: string
  rc_outdated :: bool
  rc_resolved :: bool
  rc_replies :: "reply list"

section \<open>Python dictionaries\<close>

text \<open>
  A Python \<^verbatim>\<open>dict\<close> keeps its keys in insertion order, and assigning to a key that is
  present replaces the value where it stands. It is modelled as an association list.
\<close>

type_synonym ('k, 'v) dict = "('k \<times> 'v) list"

definition dict_get :: "'k \<Rightarrow> ('k, 'v) dict \<Rightarrow> 'v option" where
  "dict_get k d = map_of d k"

fun dict_set :: "'k \<Rightarrow> 'v \<Rightarrow> ('k, 'v) dict \<Rightarrow> ('k, 'v) dict" where
  "dict_set k v [] = [(k, v)]"
| "dict_set k v ((k', v') # d) =
     (if k' = k then (k, v) # d else (k', v') # dict_set k v d)"

definition dict_setdefault :: "'k \<Rightarrow> 'v \<Rightarrow> ('k, 'v) dict \<Rightarrow> ('k, 'v) dict" where
  "dict_setdefault k v d = (case dict_get k d of None \<Rightarrow> d @ [(k, v)] | Some _ \<Rightarrow> d)"

text \<open>
  \<^verbatim>\<open>d.setdefault(k, []).append(x)\<close>: the list stored under \<open>k\<close> (a new one, stored as
  the last entry, when \<open>k\<close> is absent) is extended in place.
\<close>

definition setdefault_append :: "'k \<Rightarrow> 'a \<Rightarrow> ('k, 'a list) dict \<Rightarrow> ('k, 'a list) dict" where
  "setdefault_append k x d =
     (case dict_get k d of
        None \<Rightarrow> d @ [(k, [x])]
      | Some xs \<Rightarrow> dict_set k (xs @ [x]) d)"

definition dict_values :: "('k, 'v) dict \<Rightarrow> 'v list" where
  "dict_values d = map snd d"

section \<open>The comment tree: top-level comments and their replies\<close>

definition reply_of :: "raw_review_comment \<Rightarrow> reply" where
  "reply_of c = \<lparr>reply_id = raw_id c, reply_author = raw_login c, reply_body = raw_body c\<rparr>"

text \<open>The body of the loop \<^verbatim>\<open>for c in raw_review\<close>, on the pair of dictionaries.\<close>

definition partition_step ::
  "raw_review_comment \<Rightarrow>
   (int, raw_review_comment) dict \<times> (int, reply list) dict \<Rightarrow>
   (int, raw_review_comment) dict \<times> (int, reply list) dict" where
  "partition_step c s =
     (case s of (top_level, replies) \<Rightarrow>
        (case in_reply_to_id c of
           None \<Rightarrow> (dict_set (raw_id c) c top_level, dict_setdefault (raw_id c) [] replies)
         | Some parent_id \<Rightarrow> (top_level, setdefault_append parent_id (reply_of c) replies)))"

definition partition_comments ::
  "raw_review_comment list \<Rightarrow> (int, raw_review_comment) dict \<times> (int, reply list) dict" where
  "partition_comments raw_review = fold partition_step raw_review ([], [])"

text \<open>
  Python's \<^verbatim>\<open>a or b\<close> on values that are an integer or \<^verbatim>\<open>None\<close>: \<open>a\<close> when it is
  truthy (neither \<^verbatim>\<open>None\<close> nor \<open>0\<close>), else \<open>b\<close>.
\<close>

definition py_or :: "int option \<Rightarrow> int option \<Rightarrow> int option" where
  "py_or a b = (if a \<noteq> None \<and> a \<noteq> Some 0 then a else b)"

definition review_comment_of ::
  "int set \<Rightarrow> (int, reply list) dict \<Rightarrow> raw_review_comment \<Rightarrow> review_comment" where
  "review_comment_of resolved_ids replies c =
     \<lparr>rc_id = raw_id c,
      rc_author = raw_login c,
      rc_path = raw_path c,
      rc_line = py_or (raw_line c) (raw_original_line c),
      rc_body = raw_body c,
      rc_diff_hunk = (case raw_diff_hunk c of None \<Rightarrow> [] | Some h \<Rightarrow> h),
      rc_outdated = (raw_position c = None),
      rc_resolved = (raw_id c \<in> resolved_ids),
      rc_replies = (case dict_get (raw_id c) replies of None \<Rightarrow> [] | Some rs \<Rightarrow> rs)\<rparr>"

definition review_comments :: "raw_review_comment list \<Rightarrow> int set \<Rightarrow> review_comment list" where
  "review_comments raw_review resolved_ids =
     (case partition_comments raw_review of (top_level, replies) \<Rightarrow>
        map (review_comment_of resolved_ids replies) (dict_values top_level))"

section \<open>The \<^verbatim>\<open>gh\<close> subprocess\<close>

text \<open>
  Every request goes through a \<^verbatim>\<open>gh\<close> subprocess run with \<^verbatim>\<open>check=True\<close>, whose
  standard output is parsed with \<^verbatim>\<open>json.loads\<close>. The subprocess either fails (a non-zero
  exit status raises \<^verbatim>\<open>CalledProcessError\<close>, unparsable output raises
  \<^verbatim>\<open>JSONDecodeError\<close>) or yields a JSON value. What \<^verbatim>\<open>gh\<close> answers is not part of the
  script: it is the parameter \<open>E\<close> of the model, one typed view per endpoint, together with
  Python's built-in \<^verbatim>\<open>int\<close> on strings and with the decimal digits beyond ASCII that the
  running Python knows (the characters of the Unicode category Nd, each given by its UTF-8
  encoding). The answer for the pull request is passed on
  unread; the answers for the inline comments and for the issue comments are the sequences
  of comment objects that the script iterates over.
\<close>

datatype gh_failure = CalledProcessError int | JSONDecodeError

datatype error = SystemExit int | ValueError | GhFailure gh_failure

datatype message = CannotParsePRURL string | UsageDoc

datatype call =
    RunGh "string list"
  | Graphql string string int "string option"

text \<open>
  The observable effects of a run: the subprocesses started, in order, each with its
  failure if it failed, and what was printed to the standard error stream.
\<close>

record world =
  calls :: "(call \<times> gh_failure option) list"
  stderr :: "message list"

record review_thread =
  isResolved :: bool
  comments :: "int list"

record threads_page =
  nodes :: "review_thread list"
  hasNextPage :: bool
  endCursor :: "string option"

record raw_issue_comment =
  ri_id :: int
  ri_login :: string
  ri_body :: string

record issue_comment =
  ic_id :: int
  ic_author :: string
  ic_body :: string

record 'm document =
  doc_pr :: 'm
  doc_review_comments :: "review_comment list"
  doc_issue_comments :: "issue_comment list"

record 'm env =
  py_int :: "string \<Rightarrow> int option"
  unicode_digit :: "string \<Rightarrow> bool"
  pr_json :: "string list \<Rightarrow> gh_failure + 'm"
  threads_json :: "string \<Rightarrow> string \<Rightarrow> int \<Rightarrow> string option \<Rightarrow> gh_failure + threads_page"
  review_json :: "string list \<Rightarrow> gh_failure + raw_review_comment list"
  issue_json :: "string list \<Rightarrow> gh_failure + raw_issue_comment list"

definition record_call :: "call \<Rightarrow> gh_failure option \<Rightarrow> world \<Rightarrow> world" where
  "record_call c f w = w\<lparr>calls := calls w @ [(c, f)]\<rparr>"

definition run_gh ::
  "(string list \<Rightarrow> gh_failure + 'a) \<Rightarrow> string list \<Rightarrow> world \<Rightarrow> (error + 'a) \<times> world" where
  "run_gh respond args w =
     (case respond args of
        Inl f \<Rightarrow> (Inl (GhFailure f), record_call (RunGh args) (Some f) w)
      | Inr v \<Rightarrow> (Inr v, record_call (RunGh args) None w))"

section \<open>Parsing the pull request reference\<close>

text \<open>
  The number of bytes of the UTF-8 encoded character that starts with the byte \<open>c\<close>.
\<close>

definition utf8_length :: "char \<Rightarrow> nat" where
  "utf8_length c =
     (if (of_char c :: nat) < 128 then 1
      else if (of_char c :: nat) < 224 then 2
      else if (of_char c :: nat) < 240 then 3 else 4)"

text \<open>
  \<^verbatim>\<open>\d\<close> in a pattern on Python strings matches one decimal digit of any script. The
  length in bytes of the digit at the head of \<open>s\<close>, and 0 when \<open>s\<close> does not start with a
  digit: among the ASCII characters the digits are \<^verbatim>\<open>0\<close> to \<^verbatim>\<open>9\<close>; a longer character
  is a digit when \<open>nd\<close> says so.
\<close>

definition digit_length :: "(string \<Rightarrow> bool) \<Rightarrow> string \<Rightarrow> nat" where
  "digit_length nd s =
     (case s of
        [] \<Rightarrow> 0
      | c # cs \<Rightarrow>
          if (of_char c :: nat) < 128 then (if c \<in> set ''0123456789'' then 1 else 0)
          else if utf8_length c \<le> length s \<and> nd (take (utf8_length c) s)
          then utf8_length c else 0)"

text \<open>\<^verbatim>\<open>\d*\<close>, greedy: the longest run of digits at the head of \<open>s\<close>.\<close>

function take_digits :: "(string \<Rightarrow> bool) \<Rightarrow> string \<Rightarrow> string" where
  "take_digits nd s =
     (if digit_length nd s = 0 then []
      else take (digit_length nd s) s @ take_digits nd (drop (digit_length nd s) s))"
  by pat_completeness auto
termination
  by (relation "measure (\<lambda>(nd, s). length s)") (auto simp: digit_length_def split: list.splits)

declare take_digits.simps [simp del]

definition not_slash :: "char \<Rightarrow> bool" where
  "not_slash c = (c \<noteq> CHR ''/'')"

fun strip_prefix :: "string \<Rightarrow> string \<Rightarrow> string option" where
  "strip_prefix [] s = Some s"
| "strip_prefix (p # ps) [] = None"
| "strip_prefix (p # ps) (c # cs) = (if p = c then strip_prefix ps cs else None)"

text \<open>
  \<^verbatim>\<open>re.match(r"https://github\.com/([^/]+/[^/]+)/pull/(\d+)", url)\<close>, returning the two
  groups. \<^verbatim>\<open>re.match\<close> anchors the pattern at the start of the string only. Each
  \<^verbatim>\<open>[^/]+\<close> is followed by a literal slash in the pattern, so the only run of characters
  it can match is the maximal one (no byte of a longer UTF-8 character is a slash);
  \<^verbatim>\<open>\d+\<close> ends the pattern and is greedy, so group 2 is the maximal run of digits.
\<close>

definition match_pr_url :: "(string \<Rightarrow> bool) \<Rightarrow> string \<Rightarrow> (string \<times> string) option" where
  "match_pr_url nd url =
     (case strip_prefix ''https://github.com/'' url of
        None \<Rightarrow> None
      | Some r1 \<Rightarrow>
          (let owner = takeWhile not_slash r1 in
           if owner = [] then None
           else case strip_prefix ''/'' (dropWhile not_slash r1) of
             None \<Rightarrow> None
           | Some r2 \<Rightarrow>
               (let name = takeWhile not_slash r2 in
                if name = [] then None
                else case strip_prefix ''/pull/'' (dropWhile not_slash r2) of
                  None \<Rightarrow> None
                | Some r3 \<Rightarrow>
                    (let digits = take_digits nd r3 in
                     if digits = [] then None
                     else Some (owner @ ''/'' @ name, digits)))))"

definition parse_pr_ref ::
  "'m env \<Rightarrow> string list \<Rightarrow> world \<Rightarrow> (error + string \<times> string) \<times> world" where
  "parse_pr_ref E args w =
     (if length args = 1 then
        (let url = args ! 0 in
         case match_pr_url (unicode_digit E) url of
           None \<Rightarrow> (Inl (SystemExit 1), w\<lparr>stderr := stderr w @ [CannotParsePRURL url]\<rparr>)
         | Some m \<Rightarrow> (Inr (fst m, snd m), w))
      else if length args = 2 then (Inr (args ! 0, args ! 1), w)
      else (Inl (SystemExit 1), w\<lparr>stderr := stderr w @ [UsageDoc]\<rparr>))"

section \<open>Resolved review threads\<close>

definition add_resolved :: "review_thread \<Rightarrow> int set \<Rightarrow> int set" where
  "add_resolved thread resolved =
     (if isResolved thread then
        (case comments thread of [] \<Rightarrow> resolved | c # _ \<Rightarrow> insert c resolved)
      else resolved)"

definition run_graphql ::
  "'m env \<Rightarrow> string \<Rightarrow> string \<Rightarrow> int \<Rightarrow> string option \<Rightarrow> world \<Rightarrow>
   (error + threads_page) \<times> world" where
  "run_graphql E owner repo number cursor w =
     (case threads_json E owner repo number cursor of
        Inl f \<Rightarrow> (Inl (GhFailure f), record_call (Graphql owner repo number cursor) (Some f) w)
      | Inr v \<Rightarrow> (Inr v, record_call (Graphql owner repo number cursor) None w))"

text \<open>
  The \<^verbatim>\<open>while True\<close> loop of \<^verbatim>\<open>fetch_resolved_thread_ids\<close>. Nothing in the script
  bounds the number of pages, so the loop takes fuel, one unit per page requested: the
  result \<open>None\<close> is a run that is still inside the loop when the fuel is used up, and
  the world returned with it holds the requests made so far.
\<close>

fun resolved_loop ::
  "nat \<Rightarrow> 'm env \<Rightarrow> string \<Rightarrow> string \<Rightarrow> int \<Rightarrow> string option \<Rightarrow> int set \<Rightarrow> world \<Rightarrow>
   (error + int set) option \<times> world" where
  "resolved_loop 0 E owner repo number cursor resolved w = (None, w)"
| "resolved_loop (Suc fuel) E owner repo number cursor resolved w =
     (case run_graphql E owner repo number cursor w of
        (Inl e, w1) \<Rightarrow> (Some (Inl e), w1)
      | (Inr threads, w1) \<Rightarrow>
          (let resolved1 = fold add_resolved (nodes threads) resolved in
           if \<not> hasNextPage threads then (Some (Inr resolved1), w1)
           else resolved_loop fuel E owner repo number (endCursor threads) resolved1 w1))"

definition fetch_resolved_thread_ids ::
  "nat \<Rightarrow> 'm env \<Rightarrow> string \<Rightarrow> string \<Rightarrow> int \<Rightarrow> world \<Rightarrow> (error + int set) option \<times> world" where
  "fetch_resolved_thread_ids fuel E owner repo number w =
     resolved_loop fuel E owner repo number None {} w"

section \<open>The aggregate\<close>

text \<open>\<^verbatim>\<open>owner, repo_name = repo.split("/", 1)\<close>: a \<^verbatim>\<open>ValueError\<close> when there is no slash.\<close>

definition split_repo :: "string \<Rightarrow> error + string \<times> string" where
  "split_repo repo =
     (if CHR ''/'' \<in> set repo
      then Inr (takeWhile not_slash repo, tl (dropWhile not_slash repo))
      else Inl ValueError)"

definition issue_comment_of :: "raw_issue_comment \<Rightarrow> issue_comment" where
  "issue_comment_of c = \<lparr>ic_id = ri_id c, ic_author = ri_login c, ic_body = ri_body c\<rparr>"

definition pr_args :: "string \<Rightarrow> string \<Rightarrow> string list" where
  "pr_args repo number =
     [''api'', ''repos/'' @ repo @ ''/pulls/'' @ number,
      ''--jq'', ''{title: .title, url: .html_url, body: .body}'']"

definition review_args :: "string \<Rightarrow> string \<Rightarrow> string list" where
  "review_args repo number =
     [''api'', ''repos/'' @ repo @ ''/pulls/'' @ number @ ''/comments'', ''--paginate'', ''--slurp'']"

definition issue_args :: "string \<Rightarrow> string \<Rightarrow> string list" where
  "issue_args repo number =
     [''api'', ''repos/'' @ repo @ ''/issues/'' @ number @ ''/comments'', ''--paginate'', ''--slurp'']"

definition fetch_pr_comments ::
  "nat \<Rightarrow> 'm env \<Rightarrow> string \<Rightarrow> string \<Rightarrow> world \<Rightarrow> (error + 'm document) option \<times> world" where
  "fetch_pr_comments fuel E repo number w =
     (case split_repo repo of
        Inl e \<Rightarrow> (Some (Inl e), w)
      | Inr names \<Rightarrow>
     (case run_gh (pr_json E) (pr_args repo number) w of
        (Inl e, w1) \<Rightarrow> (Some (Inl e), w1)
      | (Inr pr_data, w1) \<Rightarrow>
     (case py_int E number of
        None \<Rightarrow> (Some (Inl ValueError), w1)
      | Some n \<Rightarrow>
     (case fetch_resolved_thread_ids fuel E (fst names) (snd names) n w1 of
        (None, w2) \<Rightarrow> (None, w2)
      | (Some (Inl e), w2) \<Rightarrow> (Some (Inl e), w2)
      | (Some (Inr resolved_ids), w2) \<Rightarrow>
     (case run_gh (review_json E) (review_args repo number) w2 of
        (Inl e, w3) \<Rightarrow> (Some (Inl e), w3)
      | (Inr raw_review, w3) \<Rightarrow>
     (case run_gh (issue_json E) (issue_args repo number) w3 of
        (Inl e, w4) \<Rightarrow> (Some (Inl e), w4)
      | (Inr raw_issue, w4) \<Rightarrow>
          (Some (Inr \<lparr>doc_pr = pr_data,
                      doc_review_comments = review_comments raw_review resolved_ids,
                      doc_issue_comments = map issue_comment_of raw_issue\<rparr>), w4)))))))"

text \<open>
  \<^verbatim>\<open>main\<close> on \<^verbatim>\<open>sys.argv[1:]\<close>. A result \<open>Some (Inr data)\<close> stands for \<open>data\<close>
  serialised to the standard output.
\<close>

definition main ::
  "nat \<Rightarrow> 'm env \<Rightarrow> string list \<Rightarrow> world \<Rightarrow> (error + 'm document) option \<times> world" where
  "main fuel E args w =
     (if args = [] then (Some (Inl (SystemExit 1)), w\<lparr>stderr := stderr w @ [UsageDoc]\<rparr>)
      else case parse_pr_ref E args w of
        (Inl e, w1) \<Rightarrow> (Some (Inl e), w1)
      | (Inr ref, w1) \<Rightarrow> fetch_pr_comments fuel E (fst ref) (snd ref) w1)"

section \<open>Notions used to state the properties\<close>

text \<open>
  A finite chain of \<^verbatim>\<open>reviewThreads\<close> pages as the loop meets it: the request with the
  given cursor is answered by the first page, every page but the last has
  \<^verbatim>\<open>hasNextPage\<close> set and its \<^verbatim>\<open>endCursor\<close> is answered by the next page.
\<close>

fun serves ::
  "'m env \<Rightarrow> string \<Rightarrow> string \<Rightarrow> int \<Rightarrow> string option \<Rightarrow> threads_page list \<Rightarrow> bool" where
  "serves E owner repo number cursor [] = False"
| "serves E owner repo number cursor (p # ps) =
     (threads_json E owner repo number cursor = Inr p \<and>
      (if ps = [] then \<not> hasNextPage p
       else hasNextPage p \<and> serves E owner repo number (endCursor p) ps))"

text \<open>The first comment of every resolved thread of a page that has a comment.\<close>

definition resolved_first_comments :: "threads_page \<Rightarrow> int set" where
  "resolved_first_comments p =
     set (map (\<lambda>t. hd (comments t)) (filter (\<lambda>t. isResolved t \<and> comments t \<noteq> []) (nodes p)))"

text \<open>The subprocesses started between the world \<open>w\<close> and a later world \<open>w'\<close>.\<close>

definition issued :: "world \<Rightarrow> world \<Rightarrow> (call \<times> gh_failure option) list" where
  "issued w w' = drop (length (calls w)) (calls w')"

text \<open>
  Between \<open>w\<close> and \<open>w'\<close> every subprocess succeeded; and: every subprocess succeeded but
  the last one, which failed with \<open>f\<close>. Nothing is printed to the standard error stream.
\<close>

definition clean_trace :: "world \<Rightarrow> world \<Rightarrow> bool" where
  "clean_trace w w' =
     (\<exists>new. calls w' = calls w @ new \<and> stderr w' = stderr w \<and> list_all (\<lambda>c. snd c = None) new)"

definition failing_trace :: "world \<Rightarrow> world \<Rightarrow> gh_failure \<Rightarrow> bool" where
  "failing_trace w w' f =
     (\<exists>new c. calls w' = calls w @ new @ [(c, Some f)] \<and> stderr w' = stderr w \<and>
        list_all (\<lambda>c. snd c = None) new)"

text \<open>The shape of the trace that goes with each result of a run.\<close>

definition trace_for :: "world \<Rightarrow> world \<Rightarrow> (error + 'a) option \<Rightarrow> bool" where
  "trace_for w w' r =
     (case r of Some (Inl (GhFailure f)) \<Rightarrow> failing_trace w w' f | _ \<Rightarrow> clean_trace w w')"

text \<open>
  The requests of the loop are answered by the pages of \<open>ps\<close>, each announcing a next
  page, and the request after them fails with \<open>f\<close>.
\<close>

fun fails_after ::
  "'m env \<Rightarrow> string \<Rightarrow> string \<Rightarrow> int \<Rightarrow> string option \<Rightarrow> threads_page list \<Rightarrow> gh_failure \<Rightarrow> bool"
  where
  "fails_after E owner repo number cursor [] f =
     (threads_json E owner repo number cursor = Inl f)"
| "fails_after E owner repo number cursor (p # ps) f =
     (threads_json E owner repo number cursor = Inr p \<and> hasNextPage p \<and>
      fails_after E owner repo number (endCursor p) ps f)"

text \<open>
  The form of a pull request URL in the words of the specification,
  \<^verbatim>\<open>https://<host>/<owner>/<repo>/pull/<number>\<close>, with non-empty parts free of slashes
  and a number made of digits; the result is \<^verbatim>\<open><owner>/<repo>\<close> and the number.
\<close>

definition spec_pr_url :: "(string \<Rightarrow> bool) \<Rightarrow> string \<Rightarrow> (string \<times> string) option" where
  "spec_pr_url nd url =
     (case strip_prefix ''https://'' url of
        None \<Rightarrow> None
      | Some r0 \<Rightarrow>
          (let host = takeWhile not_slash r0; r1 = drop 1 (dropWhile not_slash r0);
               owner = takeWhile not_slash r1; r2 = drop 1 (dropWhile not_slash r1);
               name = takeWhile not_slash r2; r3 = dropWhile not_slash r2
           in case strip_prefix ''/pull/'' r3 of
                None \<Rightarrow> None
              | Some number \<Rightarrow>
                  if host \<noteq> [] \<and> owner \<noteq> [] \<and> name \<noteq> [] \<and> number \<noteq> [] \<and>
                     take_digits nd number = number
                  then Some (owner @ ''/'' @ name, number) else None))"

text \<open>
  A string that starts with \<^verbatim>\<open>https://github.com/<owner>/<repo>/pull/<digits>\<close>, the
  owner and the repository name non-empty and free of slashes, the digits a non-empty
  sequence of decimal digits, followed by \<open>rest\<close>.
\<close>

definition github_pr_prefix ::
  "(string \<Rightarrow> bool) \<Rightarrow> string \<Rightarrow> string \<Rightarrow> string \<Rightarrow> string \<Rightarrow> string \<Rightarrow> bool" where
  "github_pr_prefix nd url owner name digits rest =
     (url = ''https://github.com/'' @ owner @ ''/'' @ name @ ''/pull/'' @ digits @ rest \<and>
      owner \<noteq> [] \<and> list_all not_slash owner \<and> name \<noteq> [] \<and> list_all not_slash name \<and>
      digits \<noteq> [] \<and> take_digits nd digits = digits)"

text \<open>
  The record \<open>c\<close>, standing in the input after \<open>pre\<close> and before \<open>post\<close>, is a top-level
  comment that no later top-level comment of the same id replaces in the dictionary
  \<^verbatim>\<open>top_level\<close>: it is the source record of the output entry with its id.
\<close>

definition source_at ::
  "raw_review_comment list \<Rightarrow> raw_review_comment list \<Rightarrow> raw_review_comment \<Rightarrow>
   raw_review_comment list \<Rightarrow> bool" where
  "source_at raw pre c post =
     (raw = pre @ c # post \<and> in_reply_to_id c = None \<and>
      list_all (\<lambda>d. in_reply_to_id d = None \<longrightarrow> raw_id d \<noteq> raw_id c) post)"

text \<open>A reply whose parent id is not the id of any top-level comment of the input.\<close>

definition orphan :: "raw_review_comment list \<Rightarrow> raw_review_comment \<Rightarrow> bool" where
  "orphan raw c =
     (case in_reply_to_id c of
        None \<Rightarrow> False
      | Some parent_id \<Rightarrow>
          \<not> list_ex (\<lambda>d. in_reply_to_id d = None \<and> raw_id d = parent_id) raw)"

section \<open>Example data\<close>

definition raw_comment ::
  "int \<Rightarrow> int option \<Rightarrow> int option \<Rightarrow> int option \<Rightarrow> int option \<Rightarrow> raw_review_comment" where
  "raw_comment i parent line original position =
     \<lparr>raw_id = i, raw_login = ''octocat'', raw_path = ''src/foo.py'', raw_line = line,
      raw_original_line = original, raw_body = ''Consider using a set'',
      raw_diff_hunk = Some ''@@ -8,6 +8,7 @@'', raw_position = position,
      in_reply_to_id = parent\<rparr>"

text \<open>
  A resolved thread (comment 55 with the reply 56), an outdated comment 60 without replies
  whose \<^verbatim>\<open>line\<close> is null, and a reply 70 to a comment 99 that is not in the list.
\<close>

definition example_review :: "raw_review_comment list" where
  "example_review =
     [raw_comment 55 None (Some 10) (Some 10) (Some 3),
      raw_comment 56 (Some 55) (Some 10) (Some 10) (Some 3),
      raw_comment 60 None None (Some 42) None,
      raw_comment 70 (Some 99) (Some 7) (Some 7) (Some 1)]"

text \<open>A top-level comment and a record of the same id that replies to that id.\<close>

definition self_reply_review :: "raw_review_comment list" where
  "self_reply_review =
     [raw_comment 1 None (Some 10) (Some 10) (Some 3),
      raw_comment 1 (Some 1) (Some 10) (Some 10) (Some 3)]"

text \<open>A top-level comment whose \<^verbatim>\<open>line\<close> is the integer 0.\<close>

definition zero_line_review :: "raw_review_comment list" where
  "zero_line_review = [raw_comment 7 None (Some 0) (Some 42) (Some 1)]"

definition example_page1 :: threads_page where
  "example_page1 =
     \<lparr>nodes = [\<lparr>isResolved = True, comments = [55]\<rparr>, \<lparr>isResolved = False, comments = [60]\<rparr>],
      hasNextPage = True, endCursor = Some ''Y3Vyc29y''\<rparr>"

definition example_page2 :: threads_page where
  "example_page2 =
     \<lparr>nodes = [\<lparr>isResolved = True, comments = []\<rparr>, \<lparr>isResolved = True, comments = [81]\<rparr>],
      hasNextPage = False, endCursor = None\<rparr>"

text \<open>
  The Arabic-Indic digits, U+0660 to U+0669: the bytes \<open>0xD9 0xA0\<close> to \<open>0xD9 0xA9\<close>.
\<close>

definition arabic_indic_digit :: "string \<Rightarrow> bool" where
  "arabic_indic_digit s =
     (case s of
        [a, b] \<Rightarrow> a = CHR 0xD9 \<and> 160 \<le> (of_char b :: nat) \<and> (of_char b :: nat) \<le> 169
      | _ \<Rightarrow> False)"

definition example_env :: "string env" where
  "example_env =
     \<lparr>py_int = (\<lambda>s. if s = ''42'' then Some 42 else None),
      unicode_digit = arabic_indic_digit,
      pr_json = (\<lambda>args. Inr ''Add parser''),
      threads_json = (\<lambda>owner repo number cursor.
         if cursor = None then Inr example_page1
         else if cursor = Some ''Y3Vyc29y'' then Inr example_page2
         else Inl (CalledProcessError 1)),
      review_json = (\<lambda>args. Inr example_review),
      issue_json = (\<lambda>args. Inr [\<lparr>ri_id = 456, ri_login = ''octocat'', ri_body = ''Looks good''\<rparr>])\<rparr>"

text \<open>The same pull request when the request for the inline comments fails.\<close>

definition failing_env :: "string env" where
  "failing_env = example_env\<lparr>review_json := (\<lambda>args. Inl (CalledProcessError 1))\<rparr>"

text \<open>The same pull request when the request for the second page of threads fails.\<close>

definition failing_threads_env :: "string env" where
  "failing_threads_env =
     example_env\<lparr>threads_json := (\<lambda>owner repo number cursor.
        if cursor = None then Inr example_page1 else Inl (CalledProcessError 1))\<rparr>"

definition empty_world :: world where
  "empty_world = \<lparr>calls = [], stderr = []\<rparr>"

section \<open>Dictionaries and the partition of the comments\<close>


lemma map_of_dict_set: "map_of (dict_set k v d) = (map_of d)(k \<mapsto> v)"
  by (induction d) auto

lemma keys_dict_set:
  "map fst (dict_set k v d) = (if k \<in> fst ` set d then map fst d else map fst d @ [k])"
  by (induction d) (fastforce simp: image_iff)+

lemma dict_set_keys: "fst ` set (dict_set k v d) = insert k (fst ` set d)"
  by (induction d) (force split: if_splits)+

lemma distinct_dict_set: "distinct (map fst d) \<Longrightarrow> distinct (map fst (dict_set k v d))"
  by (simp add: keys_dict_set)

lemma set_dict_set:
  "distinct (map fst d) \<Longrightarrow> set (dict_set k v d) = insert (k, v) {p \<in> set d. fst p \<noteq> k}"
  by (induction d) (force split: if_splits)+

lemma map_of_snoc_fresh:
  "m k = None \<Longrightarrow> [k \<mapsto> v] ++ m = m(k \<mapsto> v)"
  by (rule ext) (auto simp: map_add_def split: option.splits)

lemma map_of_dict_setdefault:
  "map_of (dict_setdefault k v d) = (case map_of d k of None \<Rightarrow> (map_of d)(k \<mapsto> v) | Some _ \<Rightarrow> map_of d)"
  by (simp add: dict_setdefault_def dict_get_def map_of_snoc_fresh split: option.splits)

lemma map_of_setdefault_append:
  "map_of (setdefault_append k x d) =
     (map_of d)(k \<mapsto> (case map_of d k of None \<Rightarrow> [x] | Some xs \<Rightarrow> xs @ [x]))"
  by (simp add: setdefault_append_def dict_get_def map_of_snoc_fresh map_of_dict_set
      split: option.splits)

lemma partition_comments_snoc:
  "partition_comments (xs @ [x]) = partition_step x (partition_comments xs)"
  by (simp add: partition_comments_def)

lemma top_level_snoc:
  "fst (partition_comments (xs @ [x])) =
     (case in_reply_to_id x of
        None \<Rightarrow> dict_set (raw_id x) x (fst (partition_comments xs))
      | Some p \<Rightarrow> fst (partition_comments xs))"
  by (simp add: partition_comments_snoc partition_step_def split: prod.splits option.splits)

lemma replies_snoc:
  "snd (partition_comments (xs @ [x])) =
     (case in_reply_to_id x of
        None \<Rightarrow> dict_setdefault (raw_id x) [] (snd (partition_comments xs))
      | Some p \<Rightarrow> setdefault_append p (reply_of x) (snd (partition_comments xs)))"
  by (simp add: partition_comments_snoc partition_step_def split: prod.splits option.splits)

lemma top_level_distinct: "distinct (map fst (fst (partition_comments raw)))"
proof (induction raw rule: rev_induct)
  case Nil
  show ?case by (simp add: partition_comments_def)
next
  case (snoc x xs)
  then show ?case
    by (simp add: top_level_snoc distinct_dict_set split: option.splits)
qed

lemma replies_lookup:
  "map_of (snd (partition_comments raw)) k =
     (if (\<exists>c\<in>set raw. in_reply_to_id c = Some k \<or> (in_reply_to_id c = None \<and> raw_id c = k))
      then Some (map reply_of (filter (\<lambda>c. in_reply_to_id c = Some k) raw))
      else None)"
proof (induction raw rule: rev_induct)
  case Nil
  show ?case by (simp add: partition_comments_def)
next
  case (snoc x xs)
  show ?case
  proof (cases "in_reply_to_id x")
    case None
    with snoc show ?thesis
      by (auto simp: replies_snoc map_of_dict_setdefault split: option.splits if_splits)
  next
    case (Some p)
    with snoc show ?thesis
      by (auto simp: replies_snoc map_of_setdefault_append split: option.splits if_splits)
  qed
qed

lemma replies_get:
  "(case dict_get k (snd (partition_comments raw)) of None \<Rightarrow> [] | Some rs \<Rightarrow> rs) =
     map reply_of (filter (\<lambda>c. in_reply_to_id c = Some k) raw)"
proof -
  have "filter (\<lambda>c. in_reply_to_id c = Some k) raw = []"
    if "\<not> (\<exists>c\<in>set raw. in_reply_to_id c = Some k \<or> (in_reply_to_id c = None \<and> raw_id c = k))"
    using that by (auto simp: filter_empty_conv)
  then show ?thesis
    by (auto simp: dict_get_def replies_lookup)
qed

lemma snoc_eq_decomp:
  "xs @ [x] = pre @ c # post \<longleftrightarrow>
     (post = [] \<and> pre = xs \<and> c = x) \<or> (\<exists>post'. post = post' @ [x] \<and> xs = pre @ c # post')"
  by (cases post rule: rev_cases) auto

lemma last_top_snoc:
  "(\<exists>pre post. xs @ [x] = pre @ c # post \<and> in_reply_to_id c = None \<and> raw_id c = k \<and>
        (\<forall>d\<in>set post. in_reply_to_id d = None \<longrightarrow> raw_id d \<noteq> k)) \<longleftrightarrow>
   (if in_reply_to_id x = None \<and> raw_id x = k then c = x
    else (\<exists>pre post. xs = pre @ c # post \<and> in_reply_to_id c = None \<and> raw_id c = k \<and>
        (\<forall>d\<in>set post. in_reply_to_id d = None \<longrightarrow> raw_id d \<noteq> k)))"
  (is "?L \<longleftrightarrow> ?R")
proof
  assume ?L
  then obtain pre post where eq: "xs @ [x] = pre @ c # post"
    and c: "in_reply_to_id c = None" "raw_id c = k"
    and later: "\<forall>d\<in>set post. in_reply_to_id d = None \<longrightarrow> raw_id d \<noteq> k"
    by blast
  from eq consider "post = []" "pre = xs" "c = x"
    | post' where "post = post' @ [x]" "xs = pre @ c # post'"
    by (auto simp: snoc_eq_decomp)
  then show ?R
  proof cases
    case 1
    with c show ?thesis by simp
  next
    case 2
    with later have "\<not> (in_reply_to_id x = None \<and> raw_id x = k)" by auto
    moreover from 2 later have "\<forall>d\<in>set post'. in_reply_to_id d = None \<longrightarrow> raw_id d \<noteq> k"
      by auto
    ultimately show ?thesis using 2 c by auto
  qed
next
  assume r: ?R
  show ?L
  proof (cases "in_reply_to_id x = None \<and> raw_id x = k")
    case True
    with r have "c = x" by simp
    with True have "xs @ [x] = xs @ c # [] \<and> in_reply_to_id c = None \<and> raw_id c = k \<and>
        (\<forall>d\<in>set []. in_reply_to_id d = None \<longrightarrow> raw_id d \<noteq> k)" by simp
    then show ?thesis by blast
  next
    case False
    with r obtain pre post where "xs = pre @ c # post" "in_reply_to_id c = None" "raw_id c = k"
      "\<forall>d\<in>set post. in_reply_to_id d = None \<longrightarrow> raw_id d \<noteq> k" by auto
    with False have "xs @ [x] = pre @ c # (post @ [x]) \<and> in_reply_to_id c = None \<and> raw_id c = k \<and>
        (\<forall>d\<in>set (post @ [x]). in_reply_to_id d = None \<longrightarrow> raw_id d \<noteq> k)" by auto
    then show ?thesis by blast
  qed
qed

lemma top_level_entry:
  "(k, c) \<in> set (fst (partition_comments raw)) \<longleftrightarrow>
     (\<exists>pre post. raw = pre @ c # post \<and> in_reply_to_id c = None \<and> raw_id c = k \<and>
        (\<forall>d\<in>set post. in_reply_to_id d = None \<longrightarrow> raw_id d \<noteq> k))"
proof (induction raw rule: rev_induct)
  case Nil
  show ?case by (simp add: partition_comments_def)
next
  case (snoc x xs)
  show ?case
  proof (cases "in_reply_to_id x")
    case None
    have "(k, c) \<in> set (fst (partition_comments (xs @ [x]))) \<longleftrightarrow>
       (k = raw_id x \<and> c = x) \<or> ((k, c) \<in> set (fst (partition_comments xs)) \<and> k \<noteq> raw_id x)"
      by (auto simp: top_level_snoc None set_dict_set [OF top_level_distinct])
    also have "\<dots> \<longleftrightarrow> (if raw_id x = k then c = x else (k, c) \<in> set (fst (partition_comments xs)))"
      unfolding snoc.IH using None by auto
    finally show ?thesis
      unfolding last_top_snoc snoc.IH using None by simp
  next
    case (Some p)
    show ?thesis
      unfolding last_top_snoc using Some snoc.IH by (simp add: top_level_snoc)
  qed
qed


lemma review_comments_alt:
  "review_comments raw R =
     map (review_comment_of R (snd (partition_comments raw))) (map snd (fst (partition_comments raw)))"
  by (simp add: review_comments_def dict_values_def split: prod.splits)

lemma review_comments_mem:
  "e \<in> set (review_comments raw R) \<longleftrightarrow>
     (\<exists>pre c post. raw = pre @ c # post \<and> in_reply_to_id c = None \<and>
        (\<forall>d\<in>set post. in_reply_to_id d = None \<longrightarrow> raw_id d \<noteq> raw_id c) \<and>
        e = review_comment_of R (snd (partition_comments raw)) c)"
proof -
  have "e \<in> set (review_comments raw R) \<longleftrightarrow>
      (\<exists>k c. (k, c) \<in> set (fst (partition_comments raw)) \<and>
         e = review_comment_of R (snd (partition_comments raw)) c)"
    unfolding review_comments_alt by force
  then show ?thesis
    unfolding top_level_entry by blast
qed

lemma review_comments_ids:
  "map rc_id (review_comments raw R) = map fst (fst (partition_comments raw))"
proof -
  have "raw_id c = k" if "(k, c) \<in> set (fst (partition_comments raw))" for k c
    using that unfolding top_level_entry by blast
  then show ?thesis
    unfolding review_comments_alt by (auto simp: review_comment_of_def)
qed

lemma review_comments_distinct: "distinct (map rc_id (review_comments raw R))"
  by (simp add: review_comments_ids top_level_distinct)

lemma review_comment_of_replies:
  "rc_replies (review_comment_of R (snd (partition_comments raw)) c) =
     map reply_of (filter (\<lambda>d. in_reply_to_id d = Some (raw_id c)) raw)"
  by (simp add: review_comment_of_def replies_get)

lemma review_comment_of_id [simp]: "rc_id (review_comment_of R rs c) = raw_id c"
  by (simp add: review_comment_of_def)

lemma unique_by_id:
  "distinct (map f xs) \<Longrightarrow> x \<in> set xs \<Longrightarrow> y \<in> set xs \<Longrightarrow> f x = f y \<Longrightarrow> x = y"
  by (meson distinct_map inj_onD)

lemma example_review_comments:
  "review_comments example_review R =
     [\<lparr>rc_id = 55, rc_author = ''octocat'', rc_path = ''src/foo.py'', rc_line = Some 10,
       rc_body = ''Consider using a set'', rc_diff_hunk = ''@@ -8,6 +8,7 @@'',
       rc_outdated = False, rc_resolved = (55 \<in> R),
       rc_replies = [\<lparr>reply_id = 56, reply_author = ''octocat'',
                      reply_body = ''Consider using a set''\<rparr>]\<rparr>,
      \<lparr>rc_id = 60, rc_author = ''octocat'', rc_path = ''src/foo.py'', rc_line = Some 42,
       rc_body = ''Consider using a set'', rc_diff_hunk = ''@@ -8,6 +8,7 @@'',
       rc_outdated = True, rc_resolved = (60 \<in> R), rc_replies = []\<rparr>]"
  by (simp add: review_comments_def partition_comments_def partition_step_def example_review_def
      raw_comment_def dict_setdefault_def setdefault_append_def dict_get_def
      dict_values_def review_comment_of_def reply_of_def py_or_def)


lemma top_level_keys:
  "fst ` set (fst (partition_comments raw)) = raw_id ` {c \<in> set raw. in_reply_to_id c = None}"
proof (induction raw rule: rev_induct)
  case Nil
  show ?case by (simp add: partition_comments_def)
next
  case (snoc x xs)
  show ?case
  proof (cases "in_reply_to_id x")
    case None
    with snoc show ?thesis by (auto simp: top_level_snoc dict_set_keys)
  next
    case (Some p)
    with snoc show ?thesis by (auto simp: top_level_snoc)
  qed
qed

lemma entry_for_top_level:
  assumes "p \<in> set raw" and "in_reply_to_id p = None"
  shows "\<exists>e\<in>set (review_comments raw R). rc_id e = raw_id p"
proof -
  from assms have "raw_id p \<in> fst ` set (fst (partition_comments raw))"
    unfolding top_level_keys by blast
  then have "raw_id p \<in> set (map rc_id (review_comments raw R))"
    by (simp add: review_comments_ids)
  then show ?thesis by auto
qed

lemma entry_source:
  assumes "e \<in> set (review_comments raw R)"
  shows "\<exists>pre c post. source_at raw pre c post \<and>
           e = review_comment_of R (snd (partition_comments raw)) c"
  using assms unfolding review_comments_mem source_at_def list_all_iff by blast

lemma source_entry:
  assumes "source_at raw pre c post"
  shows "review_comment_of R (snd (partition_comments raw)) c \<in> set (review_comments raw R)"
    and "\<forall>e\<in>set (review_comments raw R). rc_id e = raw_id c \<longrightarrow>
           e = review_comment_of R (snd (partition_comments raw)) c"
proof -
  show mem: "review_comment_of R (snd (partition_comments raw)) c \<in> set (review_comments raw R)"
    unfolding review_comments_mem using assms unfolding source_at_def list_all_iff by blast
  show "\<forall>e\<in>set (review_comments raw R). rc_id e = raw_id c \<longrightarrow>
           e = review_comment_of R (snd (partition_comments raw)) c"
    using unique_by_id [OF review_comments_distinct _ mem] by simp
qed

lemma entry_replies:
  assumes "e \<in> set (review_comments raw R)"
  shows "rc_replies e = map reply_of (filter (\<lambda>c. in_reply_to_id c = Some (rc_id e)) raw)"
proof -
  from entry_source [OF assms] obtain c
    where "e = review_comment_of R (snd (partition_comments raw)) c" by blast
  then show ?thesis by (simp add: review_comment_of_replies)
qed

text \<open>
  Claim C1. In every output the replies list of the entry with id \<open>X\<close> is exactly the list
  of the replies \<^verbatim>\<open>{id, author, body}\<close> of the input records whose \<^verbatim>\<open>in_reply_to_id\<close> is
  \<open>X\<close>, one per record and in input order. The ids of the entries are pairwise distinct
  and are exactly the ids of the records with a null \<^verbatim>\<open>in_reply_to_id\<close>, and every entry
  is built from such a record: a record with a non-null \<^verbatim>\<open>in_reply_to_id\<close> is nowhere in
  the output but in the replies list of its parent, and a record with a null
  \<^verbatim>\<open>in_reply_to_id\<close> is in no replies list.
\<close>

theorem replies_grouped_under_parent:
  "(\<forall>e\<in>set (review_comments raw R).
      rc_replies e =
        map (\<lambda>c. \<lparr>reply_id = raw_id c, reply_author = raw_login c, reply_body = raw_body c\<rparr>)
          (filter (\<lambda>c. in_reply_to_id c = Some (rc_id e)) raw)) \<and>
   distinct (map rc_id (review_comments raw R)) \<and>
   rc_id ` set (review_comments raw R) = raw_id ` {c \<in> set raw. in_reply_to_id c = None} \<and>
   (\<forall>e\<in>set (review_comments raw R). \<exists>pre c post.
      source_at raw pre c post \<and> rc_id e = raw_id c \<and> rc_author e = raw_login c \<and>
      rc_path e = raw_path c \<and> rc_body e = raw_body c)"
proof (intro conjI ballI)
  fix e assume "e \<in> set (review_comments raw R)"
  from entry_replies [OF this]
  show "rc_replies e =
      map (\<lambda>c. \<lparr>reply_id = raw_id c, reply_author = raw_login c, reply_body = raw_body c\<rparr>)
        (filter (\<lambda>c. in_reply_to_id c = Some (rc_id e)) raw)"
    by (simp add: reply_of_def [abs_def])
next
  show "distinct (map rc_id (review_comments raw R))"
    by (rule review_comments_distinct)
next
  have "rc_id ` set (review_comments raw R) = set (map rc_id (review_comments raw R))"
    by simp
  also have "\<dots> = fst ` set (fst (partition_comments raw))"
    unfolding review_comments_ids by simp
  finally show "rc_id ` set (review_comments raw R) =
      raw_id ` {c \<in> set raw. in_reply_to_id c = None}"
    unfolding top_level_keys .
next
  fix e assume "e \<in> set (review_comments raw R)"
  from entry_source [OF this] obtain pre c post
    where "source_at raw pre c post \<and> e = review_comment_of R (snd (partition_comments raw)) c"
    by (elim exE)
  then have "source_at raw pre c post \<and> rc_id e = raw_id c \<and> rc_author e = raw_login c \<and>
      rc_path e = raw_path c \<and> rc_body e = raw_body c"
    by (simp add: review_comment_of_def)
  then show "\<exists>pre c post. source_at raw pre c post \<and> rc_id e = raw_id c \<and>
      rc_author e = raw_login c \<and> rc_path e = raw_path c \<and> rc_body e = raw_body c"
    by (intro exI)
qed

theorem replies_grouped_under_parent_witness:
  "map (\<lambda>c. (raw_id c, in_reply_to_id c)) example_review =
     [(55, None), (56, Some 55), (60, None), (70, Some 99)] \<and>
   hd (review_comments example_review {55}) \<in> set (review_comments example_review {55}) \<and>
   rc_id (hd (review_comments example_review {55})) = 55 \<and>
   rc_replies (hd (review_comments example_review {55})) =
     [\<lparr>reply_id = 56, reply_author = ''octocat'', reply_body = ''Consider using a set''\<rparr>] \<and>
   rc_id ` set (review_comments example_review {55}) = {55, 60}"
proof -
  let ?out = "review_comments example_review {55}"
  note inst = replies_grouped_under_parent [of example_review "{55}"]
  have mem: "hd ?out \<in> set ?out" and id: "rc_id (hd ?out) = 55"
    by (simp_all add: example_review_comments)
  have "rc_replies (hd ?out) =
      map (\<lambda>c. \<lparr>reply_id = raw_id c, reply_author = raw_login c, reply_body = raw_body c\<rparr>)
        (filter (\<lambda>c. in_reply_to_id c = Some (rc_id (hd ?out))) example_review)"
    using inst [THEN conjunct1, THEN bspec, OF mem] .
  then have replies: "rc_replies (hd ?out) =
      [\<lparr>reply_id = 56, reply_author = ''octocat'', reply_body = ''Consider using a set''\<rparr>]"
    unfolding id by (simp add: example_review_def raw_comment_def)
  have "rc_id ` set ?out = raw_id ` {c \<in> set example_review. in_reply_to_id c = None}"
    using inst [THEN conjunct2, THEN conjunct2, THEN conjunct1] .
  also have "\<dots> = set (map raw_id (filter (\<lambda>c. in_reply_to_id c = None) example_review))"
    by simp
  also have "map raw_id (filter (\<lambda>c. in_reply_to_id c = None) example_review) = [55, 60]"
    by (simp add: example_review_def raw_comment_def)
  finally have ids: "rc_id ` set ?out = {55, 60}" by simp
  have "map (\<lambda>c. (raw_id c, in_reply_to_id c)) example_review =
     [(55, None), (56, Some 55), (60, None), (70, Some 99)]"
    by (simp add: example_review_def raw_comment_def)
  with mem id replies ids show ?thesis by simp
qed

lemma review_comment_of_outdated [simp]:
  "rc_outdated (review_comment_of R rs c) = (raw_position c = None)"
  by (simp add: review_comment_of_def)

lemma review_comment_of_resolved [simp]:
  "rc_resolved (review_comment_of R rs c) = (raw_id c \<in> R)"
  by (simp add: review_comment_of_def)

lemma review_comment_of_line [simp]:
  "rc_line (review_comment_of R rs c) = py_or (raw_line c) (raw_original_line c)"
  by (simp add: review_comment_of_def)

lemma entry_fields:
  assumes "e \<in> set (review_comments raw R)"
  shows "\<exists>pre c post. source_at raw pre c post \<and> rc_id e = raw_id c \<and>
           rc_outdated e = (raw_position c = None) \<and>
           rc_resolved e = (raw_id c \<in> R) \<and>
           rc_line e = py_or (raw_line c) (raw_original_line c)"
proof -
  from entry_source [OF assms] obtain pre c post
    where "source_at raw pre c post" "e = review_comment_of R (snd (partition_comments raw)) c"
    by blast
  then have "source_at raw pre c post \<and> rc_id e = raw_id c \<and>
           rc_outdated e = (raw_position c = None) \<and>
           rc_resolved e = (raw_id c \<in> R) \<and>
           rc_line e = py_or (raw_line c) (raw_original_line c)" by simp
  then show ?thesis by (intro exI)
qed

lemma source_fields:
  assumes "source_at raw pre c post"
  shows "\<exists>e\<in>set (review_comments raw R). rc_id e = raw_id c \<and>
           rc_outdated e = (raw_position c = None) \<and>
           rc_line e = py_or (raw_line c) (raw_original_line c) \<and>
           (\<forall>e'\<in>set (review_comments raw R). rc_id e' = raw_id c \<longrightarrow> e' = e)"
proof (intro bexI conjI)
  show "review_comment_of R (snd (partition_comments raw)) c \<in> set (review_comments raw R)"
    by (rule source_entry(1) [OF assms])
  show "\<forall>e'\<in>set (review_comments raw R). rc_id e' = raw_id c \<longrightarrow>
      e' = review_comment_of R (snd (partition_comments raw)) c"
    by (rule source_entry(2) [OF assms])
qed simp_all

text \<open>
  Claim C3. In every output and for every set of resolved ids, an entry has
  \<^verbatim>\<open>resolved\<close> true exactly when its id is in the set. With the set \<open>{101}\<close> and three
  top-level comments of ids 100, 101 and 102, whatever their other fields, only the entry
  101 is resolved.
\<close>

theorem resolved_iff_in_resolved_ids:
  "(\<forall>e\<in>set (review_comments raw R). rc_resolved e \<longleftrightarrow> rc_id e \<in> R) \<and>
   (in_reply_to_id a = None \<and> raw_id a = 100 \<and> in_reply_to_id b = None \<and> raw_id b = 101 \<and>
    in_reply_to_id c = None \<and> raw_id c = 102 \<longrightarrow>
    map (\<lambda>e. (rc_id e, rc_resolved e)) (review_comments [a, b, c] {101}) =
      [(100, False), (101, True), (102, False)])"
proof
  show "\<forall>e\<in>set (review_comments raw R). rc_resolved e \<longleftrightarrow> rc_id e \<in> R"
  proof
    fix e assume "e \<in> set (review_comments raw R)"
    from entry_fields [OF this] obtain c :: raw_review_comment
      where "rc_id e = raw_id c" "rc_resolved e = (raw_id c \<in> R)"
      by (elim exE conjE)
    then show "rc_resolved e \<longleftrightarrow> rc_id e \<in> R" by simp
  qed
  show "in_reply_to_id a = None \<and> raw_id a = 100 \<and> in_reply_to_id b = None \<and> raw_id b = 101 \<and>
    in_reply_to_id c = None \<and> raw_id c = 102 \<longrightarrow>
    map (\<lambda>e. (rc_id e, rc_resolved e)) (review_comments [a, b, c] {101}) =
      [(100, False), (101, True), (102, False)]"
    by (simp add: review_comments_def partition_comments_def partition_step_def
        dict_setdefault_def dict_get_def dict_values_def)
qed

theorem resolved_iff_in_resolved_ids_witness:
  "hd (review_comments example_review {55}) \<in> set (review_comments example_review {55}) \<and>
   rc_id (hd (review_comments example_review {55})) = 55 \<and>
   rc_resolved (hd (review_comments example_review {55})) \<and>
   map (\<lambda>e. (rc_id e, rc_resolved e))
     (review_comments
        [raw_comment 100 None (Some 1) (Some 1) (Some 1),
         raw_comment 101 None (Some 2) (Some 2) (Some 2),
         raw_comment 102 None (Some 3) (Some 3) None] {101}) =
     [(100, False), (101, True), (102, False)]"
proof -
  let ?out = "review_comments example_review {55}"
  note inst = resolved_iff_in_resolved_ids [of example_review "{55}"
      "raw_comment 100 None (Some 1) (Some 1) (Some 1)"
      "raw_comment 101 None (Some 2) (Some 2) (Some 2)"
      "raw_comment 102 None (Some 3) (Some 3) None"]
  have mem: "hd ?out \<in> set ?out" and id: "rc_id (hd ?out) = 55"
    by (simp_all add: example_review_comments)
  have "rc_resolved (hd ?out) \<longleftrightarrow> rc_id (hd ?out) \<in> {55}"
    using inst [THEN conjunct1, rule_format, OF mem] .
  with id have "rc_resolved (hd ?out)" by simp
  moreover from inst [THEN conjunct2] have "map (\<lambda>e. (rc_id e, rc_resolved e))
     (review_comments
        [raw_comment 100 None (Some 1) (Some 1) (Some 1),
         raw_comment 101 None (Some 2) (Some 2) (Some 2),
         raw_comment 102 None (Some 3) (Some 3) None] {101}) =
     [(100, False), (101, True), (102, False)]"
    by (simp add: raw_comment_def)
  ultimately show ?thesis using mem id by simp
qed

text \<open>
  Claim C4. Every output entry has a source record, and its \<^verbatim>\<open>outdated\<close> field is true
  exactly when the \<^verbatim>\<open>position\<close> of that record is null; conversely every source record
  has exactly one entry, with that value. Neither the set of resolved ids nor any other
  field of the record has a part in it.
\<close>

theorem outdated_iff_position_null:
  "(\<forall>e\<in>set (review_comments raw R). \<exists>pre c post.
      source_at raw pre c post \<and> rc_id e = raw_id c \<and>
      (rc_outdated e \<longleftrightarrow> raw_position c = None)) \<and>
   (\<forall>pre c post. source_at raw pre c post \<longrightarrow>
      (\<exists>e\<in>set (review_comments raw R). rc_id e = raw_id c \<and>
         (rc_outdated e \<longleftrightarrow> raw_position c = None) \<and>
         (\<forall>e'\<in>set (review_comments raw R). rc_id e' = raw_id c \<longrightarrow> e' = e)))"
proof (intro conjI ballI allI impI)
  fix e assume "e \<in> set (review_comments raw R)"
  from entry_fields [OF this] obtain pre c post
    where "source_at raw pre c post \<and> rc_id e = raw_id c \<and>
           rc_outdated e = (raw_position c = None) \<and>
           rc_resolved e = (raw_id c \<in> R) \<and>
           rc_line e = py_or (raw_line c) (raw_original_line c)" by (elim exE)
  then have "source_at raw pre c post \<and> rc_id e = raw_id c \<and>
      (rc_outdated e \<longleftrightarrow> raw_position c = None)" by simp
  then show "\<exists>pre c post. source_at raw pre c post \<and> rc_id e = raw_id c \<and>
      (rc_outdated e \<longleftrightarrow> raw_position c = None)" by (intro exI)
next
  fix pre c post assume "source_at raw pre c post"
  from source_fields [OF this, of R]
  show "\<exists>e\<in>set (review_comments raw R). rc_id e = raw_id c \<and>
         (rc_outdated e \<longleftrightarrow> raw_position c = None) \<and>
         (\<forall>e'\<in>set (review_comments raw R). rc_id e' = raw_id c \<longrightarrow> e' = e)" by meson
qed

theorem outdated_iff_position_null_witness:
  "source_at example_review
     [raw_comment 55 None (Some 10) (Some 10) (Some 3),
      raw_comment 56 (Some 55) (Some 10) (Some 10) (Some 3)]
     (raw_comment 60 None None (Some 42) None)
     [raw_comment 70 (Some 99) (Some 7) (Some 7) (Some 1)] \<and>
   raw_position (raw_comment 60 None None (Some 42) None) = None \<and>
   map (\<lambda>e. (rc_id e, rc_outdated e, rc_resolved e)) (review_comments example_review {55}) =
     [(55, False, True), (60, True, False)]"
proof -
  let ?c = "raw_comment 60 None None (Some 42) None"
  let ?out = "review_comments example_review {55}"
  have src: "source_at example_review
     [raw_comment 55 None (Some 10) (Some 10) (Some 3),
      raw_comment 56 (Some 55) (Some 10) (Some 10) (Some 3)] ?c
     [raw_comment 70 (Some 99) (Some 7) (Some 7) (Some 1)]"
    by (simp add: source_at_def example_review_def raw_comment_def)
  have pos: "raw_position ?c = None"
    by (simp add: raw_comment_def)
  have "\<exists>e\<in>set ?out. rc_id e = raw_id ?c \<and> (rc_outdated e \<longleftrightarrow> raw_position ?c = None) \<and>
      (\<forall>e'\<in>set ?out. rc_id e' = raw_id ?c \<longrightarrow> e' = e)"
    using outdated_iff_position_null [of example_review "{55}", THEN conjunct2, rule_format, OF src] .
  then have "map (\<lambda>e. (rc_id e, rc_outdated e, rc_resolved e)) ?out =
     [(55, False, True), (60, True, False)]"
    by (simp add: example_review_comments)
  with src pos show ?thesis by simp
qed


lemma py_or_alt:
  "py_or a b = (if a = None \<or> a = Some 0 then b else a)"
  by (simp add: py_or_def)

text \<open>
  Claim C5, as the code has it. The \<^verbatim>\<open>line\<close> of an output entry is the \<^verbatim>\<open>line\<close> of its
  source record when that is neither null nor 0, and the \<^verbatim>\<open>original_line\<close> of the record
  otherwise: Python's \<^verbatim>\<open>or\<close> takes its second operand whenever the first is falsy. A record
  with a null \<^verbatim>\<open>line\<close> and \<^verbatim>\<open>original_line\<close> 42 yields the line 42.
\<close>

theorem line_or_original_line:
  "(\<forall>e\<in>set (review_comments raw R). \<exists>pre c post.
      source_at raw pre c post \<and> rc_id e = raw_id c \<and>
      rc_line e = (if raw_line c = None \<or> raw_line c = Some 0 then raw_original_line c
                   else raw_line c)) \<and>
   (\<forall>pre c post. source_at raw pre c post \<longrightarrow>
      (\<exists>e\<in>set (review_comments raw R). rc_id e = raw_id c \<and>
         rc_line e = (if raw_line c = None \<or> raw_line c = Some 0 then raw_original_line c
                      else raw_line c) \<and>
         (raw_line c = None \<and> raw_original_line c = Some 42 \<longrightarrow> rc_line e = Some 42) \<and>
         (\<forall>e'\<in>set (review_comments raw R). rc_id e' = raw_id c \<longrightarrow> e' = e)))"
proof (intro conjI ballI allI impI)
  fix e assume "e \<in> set (review_comments raw R)"
  from entry_fields [OF this] obtain pre c post
    where "source_at raw pre c post \<and> rc_id e = raw_id c \<and>
           rc_outdated e = (raw_position c = None) \<and>
           rc_resolved e = (raw_id c \<in> R) \<and>
           rc_line e = py_or (raw_line c) (raw_original_line c)" by (elim exE)
  then have "source_at raw pre c post \<and> rc_id e = raw_id c \<and>
      rc_line e = (if raw_line c = None \<or> raw_line c = Some 0 then raw_original_line c
                   else raw_line c)"
    by (simp add: py_or_alt)
  then show "\<exists>pre c post. source_at raw pre c post \<and> rc_id e = raw_id c \<and>
      rc_line e = (if raw_line c = None \<or> raw_line c = Some 0 then raw_original_line c
                   else raw_line c)"
    by (intro exI)
next
  fix pre c post assume "source_at raw pre c post"
  from source_fields [OF this, of R] obtain e
    where e: "e \<in> set (review_comments raw R)" "rc_id e = raw_id c"
      "rc_line e = py_or (raw_line c) (raw_original_line c)"
      "\<forall>e'\<in>set (review_comments raw R). rc_id e' = raw_id c \<longrightarrow> e' = e"
    by (elim bexE conjE)
  show "\<exists>e\<in>set (review_comments raw R). rc_id e = raw_id c \<and>
         rc_line e = (if raw_line c = None \<or> raw_line c = Some 0 then raw_original_line c
                      else raw_line c) \<and>
         (raw_line c = None \<and> raw_original_line c = Some 42 \<longrightarrow> rc_line e = Some 42) \<and>
         (\<forall>e'\<in>set (review_comments raw R). rc_id e' = raw_id c \<longrightarrow> e' = e)"
  proof (intro bexI conjI)
    show "e \<in> set (review_comments raw R)" by (rule e(1))
    show "rc_id e = raw_id c" by (rule e(2))
    show "rc_line e = (if raw_line c = None \<or> raw_line c = Some 0 then raw_original_line c
                      else raw_line c)"
      using e(3) by (simp add: py_or_alt)
    show "raw_line c = None \<and> raw_original_line c = Some 42 \<longrightarrow> rc_line e = Some 42"
      using e(3) by (simp add: py_or_alt)
    show "\<forall>e'\<in>set (review_comments raw R). rc_id e' = raw_id c \<longrightarrow> e' = e" by (rule e(4))
  qed
qed

theorem line_or_original_line_witness:
  "source_at example_review
     [raw_comment 55 None (Some 10) (Some 10) (Some 3),
      raw_comment 56 (Some 55) (Some 10) (Some 10) (Some 3)]
     (raw_comment 60 None None (Some 42) None)
     [raw_comment 70 (Some 99) (Some 7) (Some 7) (Some 1)] \<and>
   raw_line (raw_comment 60 None None (Some 42) None) = None \<and>
   raw_original_line (raw_comment 60 None None (Some 42) None) = Some 42 \<and>
   map (\<lambda>e. (rc_id e, rc_line e)) (review_comments example_review {55}) =
     [(55, Some 10), (60, Some 42)]"
proof -
  let ?c = "raw_comment 60 None None (Some 42) None"
  let ?out = "review_comments example_review {55}"
  have src: "source_at example_review
     [raw_comment 55 None (Some 10) (Some 10) (Some 3),
      raw_comment 56 (Some 55) (Some 10) (Some 10) (Some 3)] ?c
     [raw_comment 70 (Some 99) (Some 7) (Some 7) (Some 1)]"
    by (simp add: source_at_def example_review_def raw_comment_def)
  have line: "raw_line ?c = None" "raw_original_line ?c = Some 42"
    by (simp_all add: raw_comment_def)
  have "\<exists>e\<in>set ?out. rc_id e = raw_id ?c \<and>
      rc_line e = (if raw_line ?c = None \<or> raw_line ?c = Some 0 then raw_original_line ?c
                   else raw_line ?c) \<and>
      (raw_line ?c = None \<and> raw_original_line ?c = Some 42 \<longrightarrow> rc_line e = Some 42) \<and>
      (\<forall>e'\<in>set ?out. rc_id e' = raw_id ?c \<longrightarrow> e' = e)"
    using line_or_original_line [of example_review "{55}", THEN conjunct2, rule_format, OF src] .
  then have "map (\<lambda>e. (rc_id e, rc_line e)) ?out = [(55, Some 10), (60, Some 42)]"
    by (simp add: example_review_comments)
  with src line show ?thesis by simp
qed

text \<open>
  The claim as the specification words it fails for a record whose \<^verbatim>\<open>line\<close> is present
  and 0: the output takes the \<^verbatim>\<open>original_line\<close> 42.
\<close>

theorem line_present_counterexample:
  "map in_reply_to_id zero_line_review = [None] \<and>
   map raw_line zero_line_review = [Some 0] \<and>
   map raw_original_line zero_line_review = [Some 42] \<and>
   map rc_line (review_comments zero_line_review {}) = [Some 42]"
  by (simp add: zero_line_review_def raw_comment_def review_comments_def partition_comments_def
      partition_step_def dict_setdefault_def dict_get_def dict_values_def py_or_def)

lemma reply_of_id [simp]: "reply_id (reply_of c) = raw_id c"
  by (simp add: reply_of_def)

text \<open>
  Claim C7, as the code has it. The ids of the output entries are pairwise distinct,
  whatever ids the input repeats; a top-level comment to whose id no record replies has an
  entry with an empty replies list; and when no input record replies to its own id, no
  replies list holds a reply with the id of its owning entry.
\<close>

theorem unique_ids_and_replies:
  "distinct (map rc_id (review_comments raw R)) \<and>
   (\<forall>p\<in>set raw. in_reply_to_id p = None \<and> (\<forall>d\<in>set raw. in_reply_to_id d \<noteq> Some (raw_id p)) \<longrightarrow>
      (\<exists>e\<in>set (review_comments raw R). rc_id e = raw_id p \<and> rc_replies e = [])) \<and>
   ((\<forall>d\<in>set raw. in_reply_to_id d \<noteq> Some (raw_id d)) \<longrightarrow>
      (\<forall>e\<in>set (review_comments raw R). rc_id e \<notin> reply_id ` set (rc_replies e)))"
proof (intro conjI ballI impI)
  show "distinct (map rc_id (review_comments raw R))"
    by (rule review_comments_distinct)
next
  fix p
  assume p: "p \<in> set raw"
    and top: "in_reply_to_id p = None \<and> (\<forall>d\<in>set raw. in_reply_to_id d \<noteq> Some (raw_id p))"
  from entry_for_top_level [OF p, of R] top obtain e
    where e: "e \<in> set (review_comments raw R)" "rc_id e = raw_id p" by auto
  from top have "filter (\<lambda>c. in_reply_to_id c = Some (raw_id p)) raw = []"
    by (simp add: filter_empty_conv)
  with entry_replies [OF e(1)] e(2) have "rc_replies e = []" by simp
  with e show "\<exists>e\<in>set (review_comments raw R). rc_id e = raw_id p \<and> rc_replies e = []"
    by auto
next
  fix e
  assume no_self: "\<forall>d\<in>set raw. in_reply_to_id d \<noteq> Some (raw_id d)"
    and e: "e \<in> set (review_comments raw R)"
  show "rc_id e \<notin> reply_id ` set (rc_replies e)"
  proof
    assume "rc_id e \<in> reply_id ` set (rc_replies e)"
    then obtain d where "d \<in> set raw" "in_reply_to_id d = Some (rc_id e)" "raw_id d = rc_id e"
      unfolding entry_replies [OF e] by auto
    with no_self show False by auto
  qed
qed

theorem unique_ids_and_replies_witness:
  "list_all (\<lambda>d. in_reply_to_id d \<noteq> Some (raw_id d)) example_review \<and>
   distinct (map rc_id (review_comments example_review {55})) \<and>
   rc_id (review_comments example_review {55} ! 1) = 60 \<and>
   rc_replies (review_comments example_review {55} ! 1) = [] \<and>
   rc_id (review_comments example_review {55} ! 0)
     \<notin> reply_id ` set (rc_replies (review_comments example_review {55} ! 0))"
proof -
  let ?out = "review_comments example_review {55}"
  note inst = unique_ids_and_replies [of example_review "{55}"]
  have no_self: "\<forall>d\<in>set example_review. in_reply_to_id d \<noteq> Some (raw_id d)"
    by (simp add: example_review_def raw_comment_def)
  have mem: "?out ! 0 \<in> set ?out"
    by (simp add: example_review_comments)
  have "rc_id (?out ! 0) \<notin> reply_id ` set (rc_replies (?out ! 0))"
    using inst [THEN conjunct2, THEN conjunct2, THEN mp, OF no_self, THEN bspec, OF mem] .
  moreover have "distinct (map rc_id ?out)"
    using inst [THEN conjunct1] .
  moreover have "rc_id (?out ! 1) = 60" "rc_replies (?out ! 1) = []"
    by (simp_all add: example_review_comments)
  moreover have "list_all (\<lambda>d. in_reply_to_id d \<noteq> Some (raw_id d)) example_review"
    using no_self by (simp add: list_all_iff)
  ultimately show ?thesis by simp
qed

text \<open>
  The claim as the specification words it fails on an input that repeats an id: a record
  with id 1 that replies to the top-level comment 1 is listed among the replies of the
  entry 1.
\<close>

theorem own_id_in_replies_counterexample:
  "map (\<lambda>c. (raw_id c, in_reply_to_id c)) self_reply_review = [(1, None), (1, Some 1)] \<and>
   map (\<lambda>e. (rc_id e, map reply_id (rc_replies e))) (review_comments self_reply_review {}) =
     [(1, [1])]"
  by (simp add: self_reply_review_def raw_comment_def review_comments_def partition_comments_def
      partition_step_def dict_setdefault_def setdefault_append_def dict_get_def dict_values_def
      review_comment_of_def reply_of_def)


section \<open>The walk over the review threads\<close>

lemma fold_add_resolved:
  "fold add_resolved ts S =
     S \<union> set (map (\<lambda>t. hd (comments t)) (filter (\<lambda>t. isResolved t \<and> comments t \<noteq> []) ts))"
proof (induction ts arbitrary: S)
  case Nil
  show ?case by simp
next
  case (Cons t ts)
  have step: "add_resolved t S =
      S \<union> (if isResolved t \<and> comments t \<noteq> [] then {hd (comments t)} else {})"
    by (cases "comments t") (simp_all add: add_resolved_def)
  have "fold add_resolved (t # ts) S = fold add_resolved ts (add_resolved t S)"
    by simp
  then show ?case
    unfolding Cons.IH step by auto
qed

lemma resolved_loop_serves:
  assumes "serves E owner repo number cursor pages" and "length pages \<le> fuel"
  shows "fst (resolved_loop fuel E owner repo number cursor S w) =
           Some (Inr (S \<union> (\<Union>p\<in>set pages. resolved_first_comments p)))"
  using assms
proof (induction pages arbitrary: fuel cursor S w)
  case Nil
  then show ?case by simp
next
  case (Cons p ps)
  from Cons.prems(2) obtain k where fuel: "fuel = Suc k" and k: "length ps \<le> k"
    by (cases fuel) auto
  from Cons.prems(1) have page: "threads_json E owner repo number cursor = Inr p"
    by simp
  show ?case
  proof (cases "ps = []")
    case True
    with Cons.prems(1) have "\<not> hasNextPage p" by simp
    with page True show ?thesis
      by (simp add: fuel run_graphql_def fold_add_resolved resolved_first_comments_def)
  next
    case False
    with Cons.prems(1) have more: "hasNextPage p" "serves E owner repo number (endCursor p) ps"
      by simp_all
    from Cons.IH [OF more(2) k] page more(1) show ?thesis
      by (simp add: fuel run_graphql_def fold_add_resolved resolved_first_comments_def Un_assoc)
  qed
qed

text \<open>
  Claim C2. When the requests of the loop are answered by a finite chain of pages, the
  first one for the cursor \<^verbatim>\<open>None\<close> and the last one alone without a next page, the
  resolver returns, given fuel for that many requests, exactly the set of the first comment
  ids of the threads that are resolved and have a comment, over all pages. A resolved
  thread without comments adds nothing and the result is not an error.
\<close>

theorem resolved_ids_of_all_pages:
  assumes "serves E owner repo number None pages" and "length pages \<le> fuel"
  shows "fst (fetch_resolved_thread_ids fuel E owner repo number w) =
           Some (Inr (\<Union>p\<in>set pages. resolved_first_comments p))"
  using resolved_loop_serves [OF assms, of "{}" w]
  by (simp add: fetch_resolved_thread_ids_def)

lemma example_env_fields:
  "py_int example_env ''42'' = Some 42"
  "pr_json example_env args = Inr ''Add parser''"
  "threads_json example_env owner repo number None = Inr example_page1"
  "threads_json example_env owner repo number (Some ''Y3Vyc29y'') = Inr example_page2"
  "review_json example_env args = Inr example_review"
  "issue_json example_env args = Inr [\<lparr>ri_id = 456, ri_login = ''octocat'', ri_body = ''Looks good''\<rparr>]"
  by (simp_all add: example_env_def)

lemma example_serves:
  "serves example_env owner repo number None [example_page1, example_page2]"
  by (simp add: example_env_fields) (simp add: example_page1_def example_page2_def example_env_fields)

theorem resolved_ids_of_all_pages_witness:
  "serves example_env ''o'' ''r'' 42 None [example_page1, example_page2] \<and>
   length [example_page1, example_page2] \<le> 2 \<and>
   map comments (filter isResolved (nodes example_page2)) = [[], [81]] \<and>
   fst (fetch_resolved_thread_ids 2 example_env ''o'' ''r'' 42 empty_world) = Some (Inr {55, 81})"
proof -
  have len: "length [example_page1, example_page2] \<le> 2" by simp
  have "fst (fetch_resolved_thread_ids 2 example_env ''o'' ''r'' 42 empty_world) =
      Some (Inr (\<Union>p\<in>set [example_page1, example_page2]. resolved_first_comments p))"
    by (rule resolved_ids_of_all_pages [OF example_serves len])
  also have "(\<Union>p\<in>set [example_page1, example_page2]. resolved_first_comments p) = {55, 81}"
    by (simp add: resolved_first_comments_def example_page1_def example_page2_def insert_commute
        del: set_map set_filter)
  finally show ?thesis
    using example_serves [of "''o''" "''r''" 42]
    by (simp add: example_page2_def)
qed


section \<open>Replies without a parent\<close>

lemma top_level_filter:
  assumes "\<And>c. c \<in> set raw \<Longrightarrow> in_reply_to_id c = None \<Longrightarrow> P c"
  shows "fst (partition_comments (filter P raw)) = fst (partition_comments raw)"
  using assms
proof (induction raw rule: rev_induct)
  case Nil
  show ?case by simp
next
  case (snoc x xs)
  then have IH: "fst (partition_comments (filter P xs)) = fst (partition_comments xs)"
    by simp
  show ?case
  proof (cases "in_reply_to_id x")
    case None
    with snoc.prems have "P x" by simp
    with None IH show ?thesis by (simp add: top_level_snoc)
  next
    case (Some p)
    with IH show ?thesis by (simp add: top_level_snoc)
  qed
qed

lemma orphan_iff:
  "orphan raw c \<longleftrightarrow>
     (\<exists>p. in_reply_to_id c = Some p \<and> (\<forall>d\<in>set raw. in_reply_to_id d = None \<longrightarrow> raw_id d \<noteq> p))"
  by (auto simp: orphan_def list_ex_iff split: option.splits)

lemma replies_without_orphans:
  assumes "t \<in> set raw" and "in_reply_to_id t = None"
  shows "filter (\<lambda>c. \<not> orphan raw c \<and> in_reply_to_id c = Some (raw_id t)) raw =
         filter (\<lambda>c. in_reply_to_id c = Some (raw_id t)) raw"
proof -
  have "in_reply_to_id c = Some (raw_id t) \<Longrightarrow> \<not> orphan raw c" for c
    using assms by (auto simp: orphan_iff)
  then show ?thesis
    by (auto intro: filter_cong)
qed

lemma review_comments_without_orphans:
  "review_comments (filter (\<lambda>c. \<not> orphan raw c) raw) R = review_comments raw R"
proof -
  let ?raw' = "filter (\<lambda>c. \<not> orphan raw c) raw"
  have tops: "fst (partition_comments ?raw') = fst (partition_comments raw)"
    by (rule top_level_filter) (simp add: orphan_def)
  have "review_comment_of R (snd (partition_comments ?raw')) t =
        review_comment_of R (snd (partition_comments raw)) t"
    if "t \<in> snd ` set (fst (partition_comments raw))" for t
  proof -
    from that obtain k where "(k, t) \<in> set (fst (partition_comments raw))" by auto
    then have "t \<in> set raw" "in_reply_to_id t = None"
      unfolding top_level_entry by auto
    then show ?thesis
      by (simp add: review_comment_of_def replies_get replies_without_orphans)
  qed
  then show ?thesis
    unfolding review_comments_alt tops by simp
qed

lemma orphan_parent_has_no_entry:
  assumes "orphan raw c" and "in_reply_to_id c = Some p"
  shows "p \<notin> rc_id ` set (review_comments raw R)"
proof -
  have "rc_id ` set (review_comments raw R) = fst ` set (fst (partition_comments raw))"
    using review_comments_ids [of raw R] by (metis list.set_map)
  with assms show ?thesis
    unfolding top_level_keys by (auto simp: orphan_iff)
qed

section \<open>A run in which every request succeeds\<close>

lemma fetch_pr_comments_success:
  assumes "split_repo repo = Inr (owner, name)"
    and "pr_json E (pr_args repo number) = Inr pr"
    and "py_int E number = Some n"
    and "serves E owner name n None pages" and "length pages \<le> fuel"
    and "review_json E (review_args repo number) = Inr raw"
    and "issue_json E (issue_args repo number) = Inr issues"
  shows "fst (fetch_pr_comments fuel E repo number w) =
     Some (Inr \<lparr>doc_pr = pr,
                doc_review_comments =
                  review_comments raw (\<Union>p\<in>set pages. resolved_first_comments p),
                doc_issue_comments = map issue_comment_of issues\<rparr>)"
proof -
  let ?w1 = "record_call (RunGh (pr_args repo number)) None w"
  have "fst (fetch_resolved_thread_ids fuel E owner name n ?w1) =
      Some (Inr (\<Union>p\<in>set pages. resolved_first_comments p))"
    using resolved_loop_serves [OF assms(4,5), of "{}" ?w1]
    by (simp add: fetch_resolved_thread_ids_def)
  then obtain w2 where "fetch_resolved_thread_ids fuel E owner name n ?w1 =
      (Some (Inr (\<Union>p\<in>set pages. resolved_first_comments p)), w2)"
    by (cases "fetch_resolved_thread_ids fuel E owner name n ?w1") simp
  with assms(1,2,3,6,7) show ?thesis
    by (simp add: fetch_pr_comments_def run_gh_def)
qed

text \<open>
  Claim C6. A reply whose parent id is not the id of a top-level comment is dropped: the
  output is the one of the input without such replies, and its parent id has no entry, so
  no replies list holds it. The assembly does not fail on such an input: when every request
  succeeds, the thread pages forming a finite chain, the run returns the document.
\<close>

theorem orphan_replies_dropped:
  assumes "split_repo repo = Inr (owner, name)"
    and "pr_json E (pr_args repo number) = Inr pr"
    and "py_int E number = Some n"
    and "serves E owner name n None pages" and "length pages \<le> fuel"
    and "review_json E (review_args repo number) = Inr raw"
    and "issue_json E (issue_args repo number) = Inr issues"
    and "c \<in> set raw" and "in_reply_to_id c = Some parent" and "orphan raw c"
  shows "fst (fetch_pr_comments fuel E repo number w) =
     Some (Inr \<lparr>doc_pr = pr,
                doc_review_comments =
                  review_comments (filter (\<lambda>c. \<not> orphan raw c) raw)
                    (\<Union>p\<in>set pages. resolved_first_comments p),
                doc_issue_comments = map issue_comment_of issues\<rparr>) \<and>
   c \<notin> set (filter (\<lambda>c. \<not> orphan raw c) raw) \<and>
   parent \<notin> rc_id ` set (review_comments raw (\<Union>p\<in>set pages. resolved_first_comments p))"
  using fetch_pr_comments_success [OF assms(1-7), of w]
    orphan_parent_has_no_entry [OF assms(10,9)] assms(10)
  by (simp add: review_comments_without_orphans)

lemma example_split_repo: "split_repo ''o/r'' = Inr (''o'', ''r'')"
  by (simp add: split_repo_def not_slash_def)

lemma example_orphan:
  "raw_comment 70 (Some 99) (Some 7) (Some 7) (Some 1) \<in> set example_review"
  "in_reply_to_id (raw_comment 70 (Some 99) (Some 7) (Some 7) (Some 1)) = Some 99"
  "orphan example_review (raw_comment 70 (Some 99) (Some 7) (Some 7) (Some 1))"
  by (simp_all add: example_review_def raw_comment_def orphan_def)

lemma example_pages_resolved:
  "resolved_first_comments example_page1 \<union> resolved_first_comments example_page2 = {55, 81}"
  by (simp add: resolved_first_comments_def example_page1_def example_page2_def insert_commute
      del: set_map set_filter)

theorem orphan_replies_dropped_witness:
  "raw_comment 70 (Some 99) (Some 7) (Some 7) (Some 1) \<in> set example_review \<and>
   orphan example_review (raw_comment 70 (Some 99) (Some 7) (Some 7) (Some 1)) \<and>
   fst (fetch_pr_comments 2 example_env ''o/r'' ''42'' empty_world) =
     Some (Inr \<lparr>doc_pr = ''Add parser'',
                doc_review_comments = review_comments example_review {55, 81},
                doc_issue_comments =
                  [\<lparr>ic_id = 456, ic_author = ''octocat'', ic_body = ''Looks good''\<rparr>]\<rparr>) \<and>
   map (\<lambda>e. (rc_id e, map reply_id (rc_replies e))) (review_comments example_review {55, 81}) =
     [(55, [56]), (60, [])]"
proof -
  have len: "length [example_page1, example_page2] \<le> 2" by simp
  note inst = orphan_replies_dropped [OF example_split_repo example_env_fields(2)
      example_env_fields(1) example_serves len example_env_fields(5) example_env_fields(6)
      example_orphan, where w = empty_world]
  from inst [THEN conjunct1]
  have "fst (fetch_pr_comments 2 example_env ''o/r'' ''42'' empty_world) =
     Some (Inr \<lparr>doc_pr = ''Add parser'',
                doc_review_comments = review_comments example_review {55, 81},
                doc_issue_comments =
                  [\<lparr>ic_id = 456, ic_author = ''octocat'', ic_body = ''Looks good''\<rparr>]\<rparr>)"
    by (simp add: review_comments_without_orphans example_pages_resolved issue_comment_of_def)
  then show ?thesis
    using example_orphan by (simp add: example_review_comments)
qed


section \<open>The trace of a run\<close>

lemma record_call_simps [simp]:
  "calls (record_call c f w) = calls w @ [(c, f)]"
  "stderr (record_call c f w) = stderr w"
  by (simp_all add: record_call_def)

lemma clean_trace_refl: "clean_trace w w"
  by (simp add: clean_trace_def)

lemma clean_trace_call: "clean_trace w (record_call c None w)"
  by (simp add: clean_trace_def)

lemma failing_trace_call: "failing_trace w (record_call c (Some f) w) f"
  unfolding failing_trace_def by (intro exI [of _ "[]"] exI [of _ c]) simp

lemma clean_trace_trans:
  assumes "clean_trace w w1" and "clean_trace w1 w2"
  shows "clean_trace w w2"
proof -
  from assms obtain a b where "calls w1 = calls w @ a" "stderr w1 = stderr w"
    "list_all (\<lambda>c. snd c = None) a" "calls w2 = calls w1 @ b" "stderr w2 = stderr w1"
    "list_all (\<lambda>c. snd c = None) b"
    unfolding clean_trace_def by auto
  then have "calls w2 = calls w @ (a @ b) \<and> stderr w2 = stderr w \<and>
      list_all (\<lambda>c. snd c = None) (a @ b)" by simp
  then show ?thesis unfolding clean_trace_def by (intro exI)
qed

lemma clean_failing_trace:
  assumes "clean_trace w w1" and "failing_trace w1 w2 f"
  shows "failing_trace w w2 f"
proof -
  from assms obtain a b c where "calls w1 = calls w @ a" "stderr w1 = stderr w"
    "list_all (\<lambda>c. snd c = None) a" "calls w2 = calls w1 @ b @ [(c, Some f)]"
    "stderr w2 = stderr w1" "list_all (\<lambda>c. snd c = None) b"
    unfolding clean_trace_def failing_trace_def by auto
  then have "calls w2 = calls w @ (a @ b) @ [(c, Some f)] \<and> stderr w2 = stderr w \<and>
      list_all (\<lambda>c. snd c = None) (a @ b)" by simp
  then show ?thesis unfolding failing_trace_def by (intro exI)
qed

lemma trace_for_simps [simp]:
  "trace_for w w' None = clean_trace w w'"
  "trace_for w w' (Some (Inr v)) = clean_trace w w'"
  "trace_for w w' (Some (Inl ValueError)) = clean_trace w w'"
  "trace_for w w' (Some (Inl (SystemExit n))) = clean_trace w w'"
  "trace_for w w' (Some (Inl (GhFailure f))) = failing_trace w w' f"
  by (simp_all add: trace_for_def)

lemma trace_for_after_clean:
  assumes "clean_trace w w1" and "trace_for w1 w2 r"
  shows "trace_for w w2 r"
  using assms
  by (auto simp: trace_for_def intro: clean_trace_trans clean_failing_trace
      split: option.splits sum.splits error.splits)

lemma run_gh_Inr:
  "run_gh respond args w = (Inr v, w') \<Longrightarrow> clean_trace w w'"
  by (auto simp: run_gh_def clean_trace_call split: sum.splits)

lemma run_gh_Inl:
  "run_gh respond args w = (Inl e, w') \<Longrightarrow> \<exists>f. e = GhFailure f \<and> failing_trace w w' f"
  by (auto simp: run_gh_def failing_trace_call split: sum.splits)

lemma run_graphql_Inr:
  "run_graphql E owner repo number cursor w = (Inr v, w') \<Longrightarrow> clean_trace w w'"
  by (auto simp: run_graphql_def clean_trace_call split: sum.splits)

lemma run_graphql_Inl:
  "run_graphql E owner repo number cursor w = (Inl e, w') \<Longrightarrow>
     \<exists>f. e = GhFailure f \<and> failing_trace w w' f"
  by (auto simp: run_graphql_def failing_trace_call split: sum.splits)

lemma resolved_loop_trace:
  "resolved_loop fuel E owner repo number cursor S w = (r, w') \<Longrightarrow> trace_for w w' r"
proof (induction fuel arbitrary: cursor S w)
  case 0
  then show ?case by (simp add: clean_trace_refl)
next
  case (Suc fuel)
  obtain x w1 where step: "run_graphql E owner repo number cursor w = (x, w1)"
    by (cases "run_graphql E owner repo number cursor w")
  show ?case
  proof (cases x)
    case (Inl e)
    with run_graphql_Inl step obtain f where "e = GhFailure f" "failing_trace w w1 f"
      by blast
    with Suc.prems step Inl show ?thesis by auto
  next
    case (Inr threads)
    with step have first: "clean_trace w w1" by (simp add: run_graphql_Inr)
    show ?thesis
    proof (cases "hasNextPage threads")
      case False
      with Suc.prems step first Inr show ?thesis by auto
    next
      case True
      with Suc.prems step Inr
      have "resolved_loop fuel E owner repo number (endCursor threads)
          (fold add_resolved (nodes threads) S) w1 = (r, w')"
        by simp
      from Suc.IH [OF this] first show ?thesis
        by (auto intro: trace_for_after_clean)
    qed
  qed
qed

lemma fetch_pr_comments_trace:
  assumes "fetch_pr_comments fuel E repo number w = (r, w')"
  shows "trace_for w w' r"
proof (cases "split_repo repo")
  case (Inl e)
  with assms have "r = Some (Inl ValueError)" "w' = w"
    by (auto simp: fetch_pr_comments_def split_repo_def split: if_splits)
  then show ?thesis by (simp add: clean_trace_refl)
next
  case names: (Inr names)
  obtain x1 w1 where s1: "run_gh (pr_json E) (pr_args repo number) w = (x1, w1)"
    by (cases "run_gh (pr_json E) (pr_args repo number) w")
  show ?thesis
  proof (cases x1)
    case (Inl e)
    with run_gh_Inl s1 obtain f where "e = GhFailure f" "failing_trace w w1 f"
      by blast
    with assms names s1 Inl show ?thesis by (auto simp: fetch_pr_comments_def)
  next
    case pr: (Inr pr_data)
    with s1 have c1: "clean_trace w w1" by (simp add: run_gh_Inr)
    show ?thesis
    proof (cases "py_int E number")
      case None
      with assms names s1 pr c1 show ?thesis by (auto simp: fetch_pr_comments_def)
    next
      case n: (Some n)
      obtain r2 w2 where s2:
        "fetch_resolved_thread_ids fuel E (fst names) (snd names) n w1 = (r2, w2)"
        by (cases "fetch_resolved_thread_ids fuel E (fst names) (snd names) n w1")
      then have t2: "trace_for w1 w2 r2"
        by (simp add: fetch_resolved_thread_ids_def resolved_loop_trace)
      show ?thesis
      proof (cases r2)
        case None
        with assms names s1 pr n s2 have "r = None" "w' = w2"
          by (simp_all add: fetch_pr_comments_def)
        with t2 None c1 show ?thesis by (auto intro: clean_trace_trans)
      next
        case (Some y)
        show ?thesis
        proof (cases y)
          case (Inl e)
          with assms names s1 pr n s2 Some have r: "r = Some (Inl e)" "w' = w2"
            by (simp_all add: fetch_pr_comments_def)
          from t2 Some Inl c1 have "trace_for w w2 (Some (Inl e :: error + int set))"
            by (auto intro: trace_for_after_clean)
          with r show ?thesis by (simp add: trace_for_def)
        next
          case ids: (Inr resolved_ids)
          with t2 Some c1 have c2: "clean_trace w w2" by (auto intro: clean_trace_trans)
          obtain x3 w3 where s3: "run_gh (review_json E) (review_args repo number) w2 = (x3, w3)"
            by (cases "run_gh (review_json E) (review_args repo number) w2")
          show ?thesis
          proof (cases x3)
            case (Inl e)
            with run_gh_Inl s3 obtain f where "e = GhFailure f" "failing_trace w2 w3 f"
              by blast
            with c2 have "e = GhFailure f" "failing_trace w w3 f"
              by (auto intro: clean_failing_trace)
            with assms names s1 pr n s2 Some ids s3 Inl show ?thesis
              by (auto simp: fetch_pr_comments_def)
          next
            case raw: (Inr raw_review)
            with s3 c2 have c3: "clean_trace w w3"
              by (auto intro: clean_trace_trans run_gh_Inr)
            obtain x4 w4 where s4: "run_gh (issue_json E) (issue_args repo number) w3 = (x4, w4)"
              by (cases "run_gh (issue_json E) (issue_args repo number) w3")
            show ?thesis
            proof (cases x4)
              case (Inl e)
              with run_gh_Inl s4 obtain f where "e = GhFailure f" "failing_trace w3 w4 f"
                by blast
              with c3 have "e = GhFailure f" "failing_trace w w4 f"
                by (auto intro: clean_failing_trace)
              with assms names s1 pr n s2 Some ids s3 raw s4 Inl show ?thesis
                by (auto simp: fetch_pr_comments_def)
            next
              case (Inr raw_issue)
              with s4 c3 have "clean_trace w w4"
                by (auto intro: clean_trace_trans run_gh_Inr)
              with assms names s1 pr n s2 Some ids s3 raw s4 Inr show ?thesis
                by (auto simp: fetch_pr_comments_def)
            qed
          qed
        qed
      qed
    qed
  qed
qed

lemma trace_for_failures:
  assumes "trace_for w w' r"
  shows "calls w' = calls w @ issued w w' \<and> stderr w' = stderr w \<and>
         (\<forall>c f. (c, Some f) \<in> set (issued w w') \<longrightarrow> r = Some (Inl (GhFailure f)))"
proof (cases "\<exists>f. r = Some (Inl (GhFailure f))")
  case True
  then obtain g where r: "r = Some (Inl (GhFailure g))" by auto
  with assms obtain new c0 where "calls w' = calls w @ new @ [(c0, Some g)]"
    "stderr w' = stderr w" "list_all (\<lambda>c. snd c = None) new"
    by (auto simp: failing_trace_def)
  then show ?thesis
    by (auto simp: issued_def r list_all_iff)
next
  case False
  with assms have "clean_trace w w'"
    by (auto simp: trace_for_def split: option.splits sum.splits error.splits)
  then obtain new where "calls w' = calls w @ new"
    "stderr w' = stderr w" "list_all (\<lambda>c. snd c = None) new"
    by (auto simp: clean_trace_def)
  then show ?thesis
    by (auto simp: issued_def list_all_iff)
qed

lemma failing_env_fields:
  "py_int failing_env ''42'' = Some 42"
  "pr_json failing_env args = Inr ''Add parser''"
  "threads_json failing_env owner repo number None = Inr example_page1"
  "threads_json failing_env owner repo number (Some ''Y3Vyc29y'') = Inr example_page2"
  "review_json failing_env args = Inl (CalledProcessError 1)"
  by (simp_all add: failing_env_def example_env_def)

section \<open>The example run\<close>

lemma example_run:
  "fetch_pr_comments 2 example_env ''o/r'' ''42'' empty_world =
     (Some (Inr \<lparr>doc_pr = ''Add parser'',
                 doc_review_comments = review_comments example_review {55, 81},
                 doc_issue_comments =
                   [\<lparr>ic_id = 456, ic_author = ''octocat'', ic_body = ''Looks good''\<rparr>]\<rparr>),
      \<lparr>calls = [(RunGh (pr_args ''o/r'' ''42''), None),
                (Graphql ''o'' ''r'' 42 None, None),
                (Graphql ''o'' ''r'' 42 (Some ''Y3Vyc29y''), None),
                (RunGh (review_args ''o/r'' ''42''), None),
                (RunGh (issue_args ''o/r'' ''42''), None)],
       stderr = []\<rparr>)"
  by (simp add: fetch_pr_comments_def example_split_repo example_env_fields run_gh_def
      fetch_resolved_thread_ids_def numeral_2_eq_2 run_graphql_def record_call_def
      empty_world_def example_page1_def example_page2_def add_resolved_def insert_commute
      issue_comment_of_def)


section \<open>A request that fails\<close>

lemma resolved_loop_fails:
  assumes "fails_after E owner repo number cursor pages f" and "length pages < fuel"
  shows "fst (resolved_loop fuel E owner repo number cursor S w) = Some (Inl (GhFailure f))"
  using assms
proof (induction pages arbitrary: fuel cursor S w)
  case Nil
  then obtain k where "fuel = Suc k" by (cases fuel) auto
  with Nil.prems(1) show ?case
    by (simp add: run_graphql_def)
next
  case (Cons p ps)
  from Cons.prems(2) obtain k where fuel: "fuel = Suc k" and k: "length ps < k"
    by (cases fuel) auto
  from Cons.prems(1) have page: "threads_json E owner repo number cursor = Inr p"
    "hasNextPage p" "fails_after E owner repo number (endCursor p) ps f"
    by simp_all
  from Cons.IH [OF page(3) k] page(1,2) show ?case
    by (simp add: fuel run_graphql_def)
qed

lemma resolved_loop_Inr:
  assumes "fst (resolved_loop fuel E owner repo number cursor S w) = Some (Inr R)"
  shows "\<exists>pages. serves E owner repo number cursor pages \<and> length pages \<le> fuel \<and>
           R = S \<union> (\<Union>p\<in>set pages. resolved_first_comments p)"
  using assms
proof (induction fuel arbitrary: cursor S w)
  case 0
  then show ?case by simp
next
  case (Suc fuel)
  show ?case
  proof (cases "threads_json E owner repo number cursor")
    case (Inl f)
    with Suc.prems show ?thesis by (simp add: run_graphql_def)
  next
    case (Inr p)
    show ?thesis
    proof (cases "hasNextPage p")
      case False
      with Suc.prems Inr have "R = S \<union> resolved_first_comments p"
        by (simp add: run_graphql_def fold_add_resolved resolved_first_comments_def)
      with Inr False have "serves E owner repo number cursor [p] \<and> length [p] \<le> Suc fuel \<and>
           R = S \<union> (\<Union>p\<in>set [p]. resolved_first_comments p)"
        by simp
      then show ?thesis by (rule exI)
    next
      case True
      with Suc.prems Inr
      have "fst (resolved_loop fuel E owner repo number (endCursor p)
          (fold add_resolved (nodes p) S)
          (record_call (Graphql owner repo number cursor) None w)) = Some (Inr R)"
        by (simp add: run_graphql_def)
      from Suc.IH [OF this] obtain ps
        where ps: "serves E owner repo number (endCursor p) ps" "length ps \<le> fuel"
          "R = fold add_resolved (nodes p) S \<union> (\<Union>p\<in>set ps. resolved_first_comments p)"
        by blast
      from ps(1) have "ps \<noteq> []" by (cases ps) simp_all
      with ps Inr True have "serves E owner repo number cursor (p # ps) \<and>
          length (p # ps) \<le> Suc fuel \<and>
          R = S \<union> (\<Union>p\<in>set (p # ps). resolved_first_comments p)"
        by (simp add: fold_add_resolved resolved_first_comments_def Un_assoc)
      then show ?thesis by (rule exI)
    qed
  qed
qed

lemma fetch_pr_comments_pr_fails:
  assumes "split_repo repo = Inr (owner, name)"
    and "pr_json E (pr_args repo number) = Inl f"
  shows "fst (fetch_pr_comments fuel E repo number w) = Some (Inl (GhFailure f))"
  using assms by (simp add: fetch_pr_comments_def run_gh_def)

lemma fetch_pr_comments_threads_fail:
  assumes "split_repo repo = Inr (owner, name)"
    and "pr_json E (pr_args repo number) = Inr pr"
    and "py_int E number = Some n"
    and "fails_after E owner name n None pages f" and "length pages < fuel"
  shows "fst (fetch_pr_comments fuel E repo number w) = Some (Inl (GhFailure f))"
proof -
  let ?w1 = "record_call (RunGh (pr_args repo number)) None w"
  have "fst (fetch_resolved_thread_ids fuel E owner name n ?w1) = Some (Inl (GhFailure f))"
    using resolved_loop_fails [OF assms(4,5), of "{}" ?w1]
    by (simp add: fetch_resolved_thread_ids_def)
  then obtain w2 where "fetch_resolved_thread_ids fuel E owner name n ?w1 =
      (Some (Inl (GhFailure f)), w2)"
    by (cases "fetch_resolved_thread_ids fuel E owner name n ?w1") simp
  with assms(1-3) show ?thesis
    by (simp add: fetch_pr_comments_def run_gh_def)
qed

lemma fetch_pr_comments_after_threads:
  assumes "split_repo repo = Inr (owner, name)"
    and "pr_json E (pr_args repo number) = Inr pr"
    and "py_int E number = Some n"
    and "serves E owner name n None pages" and "length pages \<le> fuel"
  shows "(review_json E (review_args repo number) = Inl f \<longrightarrow>
            fst (fetch_pr_comments fuel E repo number w) = Some (Inl (GhFailure f))) \<and>
         (review_json E (review_args repo number) = Inr raw \<and>
          issue_json E (issue_args repo number) = Inl f \<longrightarrow>
            fst (fetch_pr_comments fuel E repo number w) = Some (Inl (GhFailure f)))"
proof -
  let ?w1 = "record_call (RunGh (pr_args repo number)) None w"
  have "fst (fetch_resolved_thread_ids fuel E owner name n ?w1) =
      Some (Inr (\<Union>p\<in>set pages. resolved_first_comments p))"
    using resolved_loop_serves [OF assms(4,5), of "{}" ?w1]
    by (simp add: fetch_resolved_thread_ids_def)
  then obtain w2 where "fetch_resolved_thread_ids fuel E owner name n ?w1 =
      (Some (Inr (\<Union>p\<in>set pages. resolved_first_comments p)), w2)"
    by (cases "fetch_resolved_thread_ids fuel E owner name n ?w1") simp
  with assms(1-3) show ?thesis
    by (simp add: fetch_pr_comments_def run_gh_def)
qed

lemma fetch_pr_comments_Inr:
  assumes "split_repo repo = Inr (owner, name)"
    and "fst (fetch_pr_comments fuel E repo number w) = Some (Inr d)"
  shows "\<exists>pr n pages raw issues.
      pr_json E (pr_args repo number) = Inr pr \<and> py_int E number = Some n \<and>
      serves E owner name n None pages \<and> length pages \<le> fuel \<and>
      review_json E (review_args repo number) = Inr raw \<and>
      issue_json E (issue_args repo number) = Inr issues \<and>
      d = \<lparr>doc_pr = pr,
           doc_review_comments = review_comments raw (\<Union>p\<in>set pages. resolved_first_comments p),
           doc_issue_comments = map issue_comment_of issues\<rparr>"
proof -
  let ?w1 = "record_call (RunGh (pr_args repo number)) None w"
  from assms obtain pr where pr: "pr_json E (pr_args repo number) = Inr pr"
    by (cases "pr_json E (pr_args repo number)") (simp_all add: fetch_pr_comments_def run_gh_def)
  from assms pr obtain n where n: "py_int E number = Some n"
    by (cases "py_int E number") (simp_all add: fetch_pr_comments_def run_gh_def)
  obtain r2 w2 where s2: "fetch_resolved_thread_ids fuel E owner name n ?w1 = (r2, w2)"
    by (cases "fetch_resolved_thread_ids fuel E owner name n ?w1")
  from assms pr n s2 obtain R where R: "r2 = Some (Inr R)"
    by (cases r2 rule: option.exhaust; cases "the r2")
      (auto simp: fetch_pr_comments_def run_gh_def)
  from s2 R have "fst (resolved_loop fuel E owner name n None {} ?w1) = Some (Inr R)"
    by (simp add: fetch_resolved_thread_ids_def)
  from resolved_loop_Inr [OF this] obtain pages
    where pages: "serves E owner name n None pages" "length pages \<le> fuel"
      "R = (\<Union>p\<in>set pages. resolved_first_comments p)"
    by auto
  from assms pr n s2 R obtain raw where raw: "review_json E (review_args repo number) = Inr raw"
    by (cases "review_json E (review_args repo number)")
      (simp_all add: fetch_pr_comments_def run_gh_def)
  from assms pr n s2 R raw obtain issues
    where issues: "issue_json E (issue_args repo number) = Inr issues"
    by (cases "issue_json E (issue_args repo number)")
      (simp_all add: fetch_pr_comments_def run_gh_def)
  from assms pr n s2 R raw issues pages(3)
  have "d = \<lparr>doc_pr = pr,
           doc_review_comments = review_comments raw (\<Union>p\<in>set pages. resolved_first_comments p),
           doc_issue_comments = map issue_comment_of issues\<rparr>"
    by (simp add: fetch_pr_comments_def run_gh_def)
  with pr n pages(1,2) raw issues show ?thesis by blast
qed

text \<open>
  Claim C8. Whichever request fails, the aggregation returns that failure and no document:
  the request for the pull request, a request for a page of review threads (after any
  number of pages), the request for the inline comments, or the request for the issue
  comments. A document is returned only when every one of these requests has been answered,
  and it is the one built from the answers. Seen from the run itself: a subprocess that
  failed is the result of the run, whatever part of the run the fuel lets through.
\<close>

theorem failure_aborts_aggregation:
  assumes "split_repo repo = Inr (owner, name)"
  shows
    "(pr_json E (pr_args repo number) = Inl f \<longrightarrow>
        fst (fetch_pr_comments fuel E repo number w) = Some (Inl (GhFailure f))) \<and>
     (pr_json E (pr_args repo number) = Inr pr \<and> py_int E number = Some n \<and>
      fails_after E owner name n None pages f \<and> length pages < fuel \<longrightarrow>
        fst (fetch_pr_comments fuel E repo number w) = Some (Inl (GhFailure f))) \<and>
     (pr_json E (pr_args repo number) = Inr pr \<and> py_int E number = Some n \<and>
      serves E owner name n None pages \<and> length pages \<le> fuel \<and>
      review_json E (review_args repo number) = Inl f \<longrightarrow>
        fst (fetch_pr_comments fuel E repo number w) = Some (Inl (GhFailure f))) \<and>
     (pr_json E (pr_args repo number) = Inr pr \<and> py_int E number = Some n \<and>
      serves E owner name n None pages \<and> length pages \<le> fuel \<and>
      review_json E (review_args repo number) = Inr raw \<and>
      issue_json E (issue_args repo number) = Inl f \<longrightarrow>
        fst (fetch_pr_comments fuel E repo number w) = Some (Inl (GhFailure f))) \<and>
     (\<forall>d. fst (fetch_pr_comments fuel E repo number w) = Some (Inr d) \<longrightarrow>
        (\<exists>pr n pages raw issues.
           pr_json E (pr_args repo number) = Inr pr \<and> py_int E number = Some n \<and>
           serves E owner name n None pages \<and> length pages \<le> fuel \<and>
           review_json E (review_args repo number) = Inr raw \<and>
           issue_json E (issue_args repo number) = Inr issues \<and>
           d = \<lparr>doc_pr = pr,
                doc_review_comments =
                  review_comments raw (\<Union>p\<in>set pages. resolved_first_comments p),
                doc_issue_comments = map issue_comment_of issues\<rparr>)) \<and>
     (\<forall>c g. (c, Some g) \<in> set (issued w (snd (fetch_pr_comments fuel E repo number w))) \<longrightarrow>
        fst (fetch_pr_comments fuel E repo number w) = Some (Inl (GhFailure g)))"
proof (intro conjI impI allI)
  assume "pr_json E (pr_args repo number) = Inl f"
  with assms show "fst (fetch_pr_comments fuel E repo number w) = Some (Inl (GhFailure f))"
    by (rule fetch_pr_comments_pr_fails)
next
  assume "pr_json E (pr_args repo number) = Inr pr \<and> py_int E number = Some n \<and>
      fails_after E owner name n None pages f \<and> length pages < fuel"
  then have "pr_json E (pr_args repo number) = Inr pr" "py_int E number = Some n"
    "fails_after E owner name n None pages f" "length pages < fuel"
    by simp_all
  then show "fst (fetch_pr_comments fuel E repo number w) = Some (Inl (GhFailure f))"
    by (rule fetch_pr_comments_threads_fail [OF assms])
next
  assume "pr_json E (pr_args repo number) = Inr pr \<and> py_int E number = Some n \<and>
      serves E owner name n None pages \<and> length pages \<le> fuel \<and>
      review_json E (review_args repo number) = Inl f"
  then have h: "pr_json E (pr_args repo number) = Inr pr" "py_int E number = Some n"
    "serves E owner name n None pages" "length pages \<le> fuel"
    and "review_json E (review_args repo number) = Inl f"
    by simp_all
  then show "fst (fetch_pr_comments fuel E repo number w) = Some (Inl (GhFailure f))"
    using fetch_pr_comments_after_threads [OF assms h, THEN conjunct1] by simp
next
  assume "pr_json E (pr_args repo number) = Inr pr \<and> py_int E number = Some n \<and>
      serves E owner name n None pages \<and> length pages \<le> fuel \<and>
      review_json E (review_args repo number) = Inr raw \<and>
      issue_json E (issue_args repo number) = Inl f"
  then have h: "pr_json E (pr_args repo number) = Inr pr" "py_int E number = Some n"
    "serves E owner name n None pages" "length pages \<le> fuel"
    and "review_json E (review_args repo number) = Inr raw \<and>
      issue_json E (issue_args repo number) = Inl f"
    by simp_all
  then show "fst (fetch_pr_comments fuel E repo number w) = Some (Inl (GhFailure f))"
    using fetch_pr_comments_after_threads [OF assms h, THEN conjunct2, THEN mp] by simp
next
  fix d assume "fst (fetch_pr_comments fuel E repo number w) = Some (Inr d)"
  with assms show "\<exists>pr n pages raw issues.
           pr_json E (pr_args repo number) = Inr pr \<and> py_int E number = Some n \<and>
           serves E owner name n None pages \<and> length pages \<le> fuel \<and>
           review_json E (review_args repo number) = Inr raw \<and>
           issue_json E (issue_args repo number) = Inr issues \<and>
           d = \<lparr>doc_pr = pr,
                doc_review_comments =
                  review_comments raw (\<Union>p\<in>set pages. resolved_first_comments p),
                doc_issue_comments = map issue_comment_of issues\<rparr>"
    by (rule fetch_pr_comments_Inr)
next
  fix c g
  let ?run = "fetch_pr_comments fuel E repo number w"
  assume mem: "(c, Some g) \<in> set (issued w (snd ?run))"
  have "?run = (fst ?run, snd ?run)" by simp
  from trace_for_failures [OF fetch_pr_comments_trace [OF this]] mem
  show "fst ?run = Some (Inl (GhFailure g))" by simp
qed

lemma failing_threads_env_fields:
  "py_int failing_threads_env ''42'' = Some 42"
  "pr_json failing_threads_env args = Inr ''Add parser''"
  "threads_json failing_threads_env owner repo number None = Inr example_page1"
  "threads_json failing_threads_env owner repo number (Some ''Y3Vyc29y'') =
     Inl (CalledProcessError 1)"
  by (simp_all add: failing_threads_env_def example_env_def)

lemma example_page_fields:
  "hasNextPage example_page1" "endCursor example_page1 = Some ''Y3Vyc29y''"
  "\<not> hasNextPage example_page2"
  by (simp_all add: example_page1_def example_page2_def)

lemma failing_env_serves:
  "serves failing_env owner repo number None [example_page1, example_page2]"
  by (simp add: failing_env_fields example_page_fields)

lemma failing_threads_env_fails:
  "fails_after failing_threads_env owner repo number None [example_page1] (CalledProcessError 1)"
  by (simp add: failing_threads_env_fields example_page_fields)

theorem failure_aborts_aggregation_witness:
  "split_repo ''o/r'' = Inr (''o'', ''r'') \<and>
   serves failing_env ''o'' ''r'' 42 None [example_page1, example_page2] \<and>
   review_json failing_env (review_args ''o/r'' ''42'') = Inl (CalledProcessError 1) \<and>
   fst (fetch_pr_comments 2 failing_env ''o/r'' ''42'' empty_world) =
     Some (Inl (GhFailure (CalledProcessError 1))) \<and>
   fails_after failing_threads_env ''o'' ''r'' 42 None [example_page1] (CalledProcessError 1) \<and>
   fst (fetch_pr_comments 2 failing_threads_env ''o/r'' ''42'' empty_world) =
     Some (Inl (GhFailure (CalledProcessError 1)))"
proof -
  note review = failure_aborts_aggregation [OF example_split_repo,
      where E = failing_env and number = "''42''" and fuel = 2 and w = empty_world
        and pr = "''Add parser''" and n = 42 and pages = "[example_page1, example_page2]"
        and f = "CalledProcessError 1",
      THEN conjunct2, THEN conjunct2, THEN conjunct1, THEN mp]
  note threads = failure_aborts_aggregation [OF example_split_repo,
      where E = failing_threads_env and number = "''42''" and fuel = 2 and w = empty_world
        and pr = "''Add parser''" and n = 42 and pages = "[example_page1]"
        and f = "CalledProcessError 1",
      THEN conjunct2, THEN conjunct1, THEN mp]
  have "fst (fetch_pr_comments 2 failing_env ''o/r'' ''42'' empty_world) =
     Some (Inl (GhFailure (CalledProcessError 1)))"
    by (rule review) (simp add: failing_env_fields example_page_fields)
  moreover have "fst (fetch_pr_comments 2 failing_threads_env ''o/r'' ''42'' empty_world) =
     Some (Inl (GhFailure (CalledProcessError 1)))"
    by (rule threads) (simp add: failing_threads_env_fields example_page_fields)
  ultimately show ?thesis
    using example_split_repo failing_env_serves [of "''o''" "''r''" 42]
      failing_threads_env_fails [of "''o''" "''r''" 42] failing_env_fields(5)
    by simp
qed


section \<open>The pull request URL\<close>

lemma strip_prefix_Some: "strip_prefix p s = Some r \<longleftrightarrow> s = p @ r"
  by (induction p s rule: strip_prefix.induct) auto

lemma strip_prefix_append [simp]: "strip_prefix p (p @ r) = Some r"
  by (simp add: strip_prefix_Some)

lemma takeWhile_until:
  assumes "list_all P xs" and "\<not> P y"
  shows "takeWhile P (xs @ y # ys) = xs" and "dropWhile P (xs @ y # ys) = y # ys"
  using assms by (induction xs) auto

lemma utf8_length_pos: "0 < utf8_length c"
  by (simp add: utf8_length_def)

lemma digit_length_le: "digit_length nd s \<le> length s"
  by (cases s) (simp_all add: digit_length_def)

lemma digit_length_ascii:
  assumes "s \<noteq> []" and "(of_char (hd s) :: nat) < 128"
  shows "digit_length nd s = (if hd s \<in> set ''0123456789'' then 1 else 0)"
  using assms by (cases s) (simp_all add: digit_length_def)

lemma digit_length_multi:
  assumes "s \<noteq> []" and "\<not> (of_char (hd s) :: nat) < 128"
  shows "digit_length nd s =
     (if utf8_length (hd s) \<le> length s \<and> nd (take (utf8_length (hd s)) s)
      then utf8_length (hd s) else 0)"
  using assms by (cases s) (simp_all add: digit_length_def)

lemma digit_length_append:
  assumes "digit_length nd s \<noteq> 0"
  shows "digit_length nd (s @ t) = digit_length nd s"
proof -
  from assms have s: "s \<noteq> []" by (auto simp: digit_length_def)
  then have st: "s @ t \<noteq> []" "hd (s @ t) = hd s" by simp_all
  show ?thesis
  proof (cases "(of_char (hd s) :: nat) < 128")
    case True
    then show ?thesis
      using digit_length_ascii [OF s True, of nd] digit_length_ascii [OF st(1), of nd] st(2)
      by simp
  next
    case False
    let ?k = "utf8_length (hd s)"
    from assms digit_length_multi [OF s False, of nd]
    have k: "?k \<le> length s" "nd (take ?k s)" "digit_length nd s = ?k"
      by (auto split: if_splits)
    then have "take ?k (s @ t) = take ?k s" "?k \<le> length (s @ t)" by simp_all
    with k digit_length_multi [OF st(1), of nd] False st(2) show ?thesis by simp
  qed
qed

lemma digit_length_take:
  assumes "digit_length nd s \<noteq> 0"
  shows "digit_length nd (take (digit_length nd s) s) = digit_length nd s"
proof -
  let ?k = "digit_length nd s"
  let ?ts = "take ?k s"
  from assms have s: "s \<noteq> []" by (auto simp: digit_length_def)
  with assms have ts: "?ts \<noteq> []" "hd ?ts = hd s" by simp_all
  have len: "length ?ts = ?k" using digit_length_le [of nd s] by simp
  show ?thesis
  proof (cases "(of_char (hd s) :: nat) < 128")
    case True
    then show ?thesis
      using digit_length_ascii [OF s True, of nd] digit_length_ascii [OF ts(1), of nd] ts(2)
      by simp
  next
    case False
    from assms digit_length_multi [OF s False, of nd]
    have k: "nd ?ts" "?k = utf8_length (hd s)"
      by (auto split: if_splits)
    with len have "utf8_length (hd ?ts) \<le> length ?ts" "take (utf8_length (hd ?ts)) ?ts = ?ts"
      using ts(2) by simp_all
    with k digit_length_multi [OF ts(1), of nd] False ts(2) show ?thesis by simp
  qed
qed

lemma take_digits_Nil: "digit_length nd s = 0 \<Longrightarrow> take_digits nd s = []"
  by (simp add: take_digits.simps)

lemma take_digits_step:
  "digit_length nd s \<noteq> 0 \<Longrightarrow>
     take_digits nd s = take (digit_length nd s) s @ take_digits nd (drop (digit_length nd s) s)"
  by (subst take_digits.simps) simp

lemma take_digits_prefix: "\<exists>rest. s = take_digits nd s @ rest"
proof (induction nd s rule: take_digits.induct)
  case (1 nd s)
  show ?case
  proof (cases "digit_length nd s = 0")
    case True
    then show ?thesis by (simp add: take_digits_Nil)
  next
    case False
    from "1.IH" [OF False] obtain rest
      where "drop (digit_length nd s) s = take_digits nd (drop (digit_length nd s) s) @ rest"
      by blast
    then have "s = (take (digit_length nd s) s @ take_digits nd (drop (digit_length nd s) s)) @ rest"
      by (metis append.assoc append_take_drop_id)
    then show ?thesis
      unfolding take_digits_step [OF False] by (rule exI)
  qed
qed

lemma take_digits_head:
  assumes "digit_length nd s \<noteq> 0"
  shows "take_digits nd (take (digit_length nd s) s @ t) = take (digit_length nd s) s @ take_digits nd t"
proof -
  let ?k = "digit_length nd s"
  have len: "length (take ?k s) = ?k"
    using digit_length_le [of nd s] by simp
  have k: "digit_length nd (take ?k s @ t) = ?k"
    using digit_length_append [of nd "take ?k s" t] digit_length_take [OF assms] assms by simp
  have "min (length s) ?k = ?k"
    using digit_length_le [of nd s] by simp
  then show ?thesis
    by (subst take_digits.simps) (simp add: k assms len)
qed

lemma take_digits_idem: "take_digits nd (take_digits nd s) = take_digits nd s"
proof (induction nd s rule: take_digits.induct)
  case (1 nd s)
  show ?case
  proof (cases "digit_length nd s = 0")
    case True
    then have "take_digits nd s = []" by (rule take_digits_Nil)
    then show ?thesis by (simp add: take_digits.simps digit_length_def)
  next
    case False
    show ?thesis
      unfolding take_digits_step [OF False] take_digits_head [OF False] "1.IH" [OF False] ..
  qed
qed

lemma take_digits_nonempty:
  assumes "digits \<noteq> []" and "take_digits nd digits = digits"
  shows "take_digits nd (digits @ rest) \<noteq> []"
proof -
  from assms have k: "digit_length nd digits \<noteq> 0"
    by (auto simp: take_digits.simps split: if_splits)
  then have "digit_length nd (digits @ rest) = digit_length nd digits"
    by (rule digit_length_append)
  with k assms(1) show ?thesis
    by (subst take_digits.simps) simp
qed

lemma match_pr_url_prefix:
  assumes "github_pr_prefix nd url owner name digits rest"
  shows "match_pr_url nd url = Some (owner @ ''/'' @ name, take_digits nd (digits @ rest))"
proof -
  from assms have url: "url = ''https://github.com/'' @ owner @ CHR ''/'' # name @ ''/pull/'' @ digits @ rest"
    and owner: "owner \<noteq> []" "list_all not_slash owner"
    and name: "name \<noteq> []" "list_all not_slash name"
    and digits: "digits \<noteq> []" "take_digits nd digits = digits"
    by (simp_all add: github_pr_prefix_def)
  have slash: "\<not> not_slash CHR ''/''" by (simp add: not_slash_def)
  have 1: "strip_prefix ''https://github.com/'' url = Some (owner @ CHR ''/'' # name @ ''/pull/'' @ digits @ rest)"
    unfolding url by (rule strip_prefix_append)
  have 2: "strip_prefix ''/'' (CHR ''/'' # name @ ''/pull/'' @ digits @ rest)
      = Some (name @ CHR ''/'' # ''pull/'' @ digits @ rest)"
    by simp
  have 3: "strip_prefix ''/pull/'' (CHR ''/'' # ''pull/'' @ digits @ rest) = Some (digits @ rest)"
    by simp
  show ?thesis
    unfolding match_pr_url_def 1 option.case Let_def
      takeWhile_until [OF owner(2) slash] 2 takeWhile_until [OF name(2) slash] 3
    using owner(1) name(1) take_digits_nonempty [OF digits] by simp
qed

lemma match_pr_url_Some:
  assumes "match_pr_url nd url = Some (g1, g2)"
  shows "\<exists>owner name rest. github_pr_prefix nd url owner name g2 rest \<and> g1 = owner @ ''/'' @ name"
proof -
  from assms obtain r1 where r1: "url = ''https://github.com/'' @ r1"
    by (auto simp: match_pr_url_def strip_prefix_Some split: option.splits)
  let ?owner = "takeWhile not_slash r1"
  from assms r1 have owner: "?owner \<noteq> []"
    by (auto simp: match_pr_url_def Let_def split: option.splits if_splits)
  from assms r1 owner obtain r2 where r2: "dropWhile not_slash r1 = ''/'' @ r2"
    by (auto simp: match_pr_url_def Let_def strip_prefix_Some split: option.splits if_splits)
  let ?name = "takeWhile not_slash r2"
  from assms r1 owner r2 have name: "?name \<noteq> []"
    by (auto simp: match_pr_url_def Let_def split: option.splits if_splits)
  from assms r1 owner r2 name obtain r3 where r3: "dropWhile not_slash r2 = ''/pull/'' @ r3"
    by (auto simp: match_pr_url_def Let_def strip_prefix_Some split: option.splits if_splits)
  from assms r1 owner r2 name r3 have digits: "take_digits nd r3 \<noteq> []"
    and g: "g1 = ?owner @ ''/'' @ ?name" "g2 = take_digits nd r3"
    by (auto simp: match_pr_url_def Let_def split: option.splits if_splits)
  obtain rest where rest: "r3 = take_digits nd r3 @ rest"
    using take_digits_prefix by blast
  have "r1 = ?owner @ dropWhile not_slash r1" "r2 = ?name @ dropWhile not_slash r2"
    by simp_all
  with r1 r2 r3 rest have "url = ''https://github.com/'' @ ?owner @ ''/'' @ ?name @ ''/pull/'' @
      take_digits nd r3 @ rest"
    by metis
  moreover have "list_all not_slash ?owner" "list_all not_slash ?name"
    by (auto simp: list_all_iff dest: set_takeWhileD)
  ultimately have "github_pr_prefix nd url ?owner ?name g2 rest \<and> g1 = ?owner @ ''/'' @ ?name"
    using owner name digits g unfolding github_pr_prefix_def
    by (simp add: take_digits_idem)
  then show ?thesis by (intro exI)
qed

lemma match_pr_url_None:
  "match_pr_url nd url = None \<longleftrightarrow>
     \<not> (\<exists>owner name digits rest. github_pr_prefix nd url owner name digits rest)"
proof
  assume "match_pr_url nd url = None"
  then show "\<not> (\<exists>owner name digits rest. github_pr_prefix nd url owner name digits rest)"
    using match_pr_url_prefix by fastforce
next
  assume none: "\<not> (\<exists>owner name digits rest. github_pr_prefix nd url owner name digits rest)"
  show "match_pr_url nd url = None"
  proof (cases "match_pr_url nd url")
    case None
    then show ?thesis .
  next
    case (Some g)
    then have "match_pr_url nd url = Some (fst g, snd g)" by simp
    from match_pr_url_Some [OF this] none show ?thesis by blast
  qed
qed

lemma parse_pr_ref_url:
  "parse_pr_ref E [url] w =
     (case match_pr_url (unicode_digit E) url of
        None \<Rightarrow> (Inl (SystemExit 1), w\<lparr>stderr := stderr w @ [CannotParsePRURL url]\<rparr>)
      | Some m \<Rightarrow> (Inr (fst m, snd m), w))"
  by (simp add: parse_pr_ref_def)

text \<open>
  Claim C9, as the code has it. With a single argument that does not start with
  \<^verbatim>\<open>https://github.com/<owner>/<repo>/pull/<digits>\<close>, the program prints that it cannot
  parse the URL, exits with status 1 and starts no subprocess. With an argument that is
  exactly \<^verbatim>\<open>https://github.com/<owner>/<repo>/pull/<number>\<close>, the parser returns
  \<^verbatim>\<open><owner>/<repo>\<close> and the number, and the program goes on to the aggregation with them.
  The digits are those that \<^verbatim>\<open>\d\<close> matches: the decimal digits of any script.
\<close>

theorem parse_github_pr_url:
  "(\<not> (\<exists>owner name digits rest.
         github_pr_prefix (unicode_digit E) url owner name digits rest) \<longrightarrow>
      main fuel E [url] w =
        (Some (Inl (SystemExit 1)), w\<lparr>stderr := stderr w @ [CannotParsePRURL url]\<rparr>) \<and>
      issued w (snd (main fuel E [url] w)) = []) \<and>
   (github_pr_prefix (unicode_digit E) url owner name digits [] \<longrightarrow>
      parse_pr_ref E [url] w = (Inr (owner @ ''/'' @ name, digits), w) \<and>
      main fuel E [url] w = fetch_pr_comments fuel E (owner @ ''/'' @ name) digits w)"
proof (intro conjI impI)
  assume "\<not> (\<exists>owner name digits rest.
      github_pr_prefix (unicode_digit E) url owner name digits rest)"
  then have none: "match_pr_url (unicode_digit E) url = None"
    by (simp add: match_pr_url_None)
  then show "main fuel E [url] w =
      (Some (Inl (SystemExit 1)), w\<lparr>stderr := stderr w @ [CannotParsePRURL url]\<rparr>)"
    by (simp add: main_def parse_pr_ref_url)
  then show "issued w (snd (main fuel E [url] w)) = []"
    by (simp add: issued_def)
next
  assume form: "github_pr_prefix (unicode_digit E) url owner name digits []"
  then have "take_digits (unicode_digit E) digits = digits"
    by (simp add: github_pr_prefix_def)
  with match_pr_url_prefix [OF form]
  have some: "match_pr_url (unicode_digit E) url = Some (owner @ ''/'' @ name, digits)" by simp
  then show "parse_pr_ref E [url] w = (Inr (owner @ ''/'' @ name, digits), w)"
    by (simp add: parse_pr_ref_url)
  from some show "main fuel E [url] w = fetch_pr_comments fuel E (owner @ ''/'' @ name) digits w"
    by (simp add: main_def parse_pr_ref_url)
qed

lemma example_unicode_digit [simp]: "unicode_digit example_env = arabic_indic_digit"
  by (simp add: example_env_def)

lemma example_digits:
  "take_digits arabic_indic_digit ''42'' = ''42''"
  "take_digits arabic_indic_digit ''42x'' = ''42''"
  "take_digits arabic_indic_digit [CHR 0xD9, CHR 0xA4, CHR 0xD9, CHR 0xA2] =
     [CHR 0xD9, CHR 0xA4, CHR 0xD9, CHR 0xA2]"
  by (simp_all add: take_digits.simps digit_length_def utf8_length_def arabic_indic_digit_def)

lemma example_urls:
  "match_pr_url arabic_indic_digit ''https://example.com/o/r/pull/42'' = None"
  "match_pr_url arabic_indic_digit ''https://github.com/o/r/pull/42x'' = Some (''o/r'', ''42'')"
  "spec_pr_url arabic_indic_digit ''https://example.com/o/r/pull/42'' = Some (''o/r'', ''42'')"
  "spec_pr_url arabic_indic_digit ''https://github.com/o/r/pull/42x'' = None"
  by (simp_all add: match_pr_url_def spec_pr_url_def not_slash_def example_digits)

theorem parse_github_pr_url_witness:
  "match_pr_url arabic_indic_digit ''https://example.com/o/r/pull/42'' = None \<and>
   main 2 example_env [''https://example.com/o/r/pull/42''] empty_world =
     (Some (Inl (SystemExit 1)),
      \<lparr>calls = [], stderr = [CannotParsePRURL ''https://example.com/o/r/pull/42'']\<rparr>) \<and>
   github_pr_prefix arabic_indic_digit ''https://github.com/o/r/pull/42'' ''o'' ''r'' ''42'' [] \<and>
   parse_pr_ref example_env [''https://github.com/o/r/pull/42''] empty_world =
     (Inr (''o/r'', ''42''), empty_world) \<and>
   fst (main 2 example_env [''https://github.com/o/r/pull/42''] empty_world) =
     fst (fetch_pr_comments 2 example_env ''o/r'' ''42'' empty_world) \<and>
   github_pr_prefix arabic_indic_digit
     (''https://github.com/o/r/pull/'' @ [CHR 0xD9, CHR 0xA4, CHR 0xD9, CHR 0xA2])
     ''o'' ''r'' [CHR 0xD9, CHR 0xA4, CHR 0xD9, CHR 0xA2] [] \<and>
   parse_pr_ref example_env
     [''https://github.com/o/r/pull/'' @ [CHR 0xD9, CHR 0xA4, CHR 0xD9, CHR 0xA2]] empty_world =
     (Inr (''o/r'', [CHR 0xD9, CHR 0xA4, CHR 0xD9, CHR 0xA2]), empty_world)"
proof -
  note inst1 = parse_github_pr_url [where E = example_env
      and url = "''https://example.com/o/r/pull/42''" and fuel = 2 and w = empty_world,
      THEN conjunct1, THEN mp]
  note inst2 = parse_github_pr_url [where E = example_env
      and url = "''https://github.com/o/r/pull/42''" and fuel = 2 and w = empty_world
      and owner = "''o''" and name = "''r''" and digits = "''42''", THEN conjunct2, THEN mp]
  note inst3 = parse_github_pr_url [where E = example_env
      and url = "''https://github.com/o/r/pull/'' @ [CHR 0xD9, CHR 0xA4, CHR 0xD9, CHR 0xA2]"
      and fuel = 2 and w = empty_world and owner = "''o''" and name = "''r''"
      and digits = "[CHR 0xD9, CHR 0xA4, CHR 0xD9, CHR 0xA2]", THEN conjunct2, THEN mp]
  have none: "\<not> (\<exists>owner name digits rest. github_pr_prefix (unicode_digit example_env)
      ''https://example.com/o/r/pull/42'' owner name digits rest)"
    using example_urls(1) by (simp add: match_pr_url_None)
  have form: "github_pr_prefix (unicode_digit example_env)
      ''https://github.com/o/r/pull/42'' ''o'' ''r'' ''42'' []"
    by (simp add: github_pr_prefix_def not_slash_def example_digits)
  have form3: "github_pr_prefix (unicode_digit example_env)
      (''https://github.com/o/r/pull/'' @ [CHR 0xD9, CHR 0xA4, CHR 0xD9, CHR 0xA2])
      ''o'' ''r'' [CHR 0xD9, CHR 0xA4, CHR 0xD9, CHR 0xA2] []"
    by (simp add: github_pr_prefix_def not_slash_def example_digits)
  from inst1 [OF none] inst2 [OF form] inst3 [OF form3]
    form form3 example_urls(1)
  show ?thesis
    by (simp add: empty_world_def)
qed

text \<open>
  The claim as the specification words it fails in both directions. A URL of the form
  \<^verbatim>\<open>https://<host>/<owner>/<repo>/pull/<number>\<close> on another host is rejected; and a string
  that is not of that form, \<^verbatim>\<open>https://github.com/o/r/pull/42x\<close>, is accepted: the
  aggregation runs for pull request 42 and starts its five subprocesses.
\<close>

theorem pr_url_form_counterexample:
  "spec_pr_url (unicode_digit example_env) ''https://example.com/o/r/pull/42'' =
     Some (''o/r'', ''42'') \<and>
   fst (main 2 example_env [''https://example.com/o/r/pull/42''] empty_world) =
     Some (Inl (SystemExit 1)) \<and>
   spec_pr_url (unicode_digit example_env) ''https://github.com/o/r/pull/42x'' = None \<and>
   main 2 example_env [''https://github.com/o/r/pull/42x''] empty_world =
     fetch_pr_comments 2 example_env ''o/r'' ''42'' empty_world \<and>
   length (calls (snd (main 2 example_env [''https://github.com/o/r/pull/42x''] empty_world))) = 5 \<and>
   stderr (snd (main 2 example_env [''https://github.com/o/r/pull/42x''] empty_world)) = []"
proof -
  have "main 2 example_env [''https://github.com/o/r/pull/42x''] empty_world =
     fetch_pr_comments 2 example_env ''o/r'' ''42'' empty_world"
    by (simp add: main_def parse_pr_ref_url example_urls)
  moreover have "fst (main 2 example_env [''https://example.com/o/r/pull/42''] empty_world) =
     Some (Inl (SystemExit 1))"
    by (simp add: main_def parse_pr_ref_url example_urls)
  ultimately show ?thesis
    by (simp add: example_urls example_run)
qed

end
